(* ===== verification/Netpulse_Prelude.thy ===== *)
theory Netpulse_Prelude
  imports Main "HOL-Library.Word"
begin

text \<open>
  Shared vocabulary of the development: the machine types, the errno values and the
  result of a system call, the interface to the operating system, the combinator that
  stands for the source's \<open>while (true)\<close> loops together with its proof rules, and
  lemmas on lists and on \<open>size_t\<close> subtraction that several components use.
\<close>

section \<open>Machine types\<close>

type_synonym byte = "8 word"
type_synonym bytes = "byte list"
type_synonym u32 = "32 word"
type_synonym u64 = "64 word"
type_synonym fd = int
type_synonym errno = int

text \<open>The subset of Linux errno values that the program compares against or returns.\<close>

abbreviation ENOENT :: errno where "ENOENT \<equiv> 2"
abbreviation EINTR :: errno where "EINTR \<equiv> 4"
abbreviation EIO :: errno where "EIO \<equiv> 5"
abbreviation EBADF :: errno where "EBADF \<equiv> 9"
abbreviation EAGAIN :: errno where "EAGAIN \<equiv> 11"
abbreviation EWOULDBLOCK :: errno where "EWOULDBLOCK \<equiv> 11"
abbreviation EINVAL :: errno where "EINVAL \<equiv> 22"
abbreviation EMFILE :: errno where "EMFILE \<equiv> 24"
abbreviation EPIPE :: errno where "EPIPE \<equiv> 32"
abbreviation ECONNABORTED :: errno where "ECONNABORTED \<equiv> 103"

named_theorems os_contracts \<open>what the program relies on from a system call\<close>
named_theorems loop_bodies \<open>one iteration of each loop of the program\<close>

section \<open>Subtraction on size_t\<close>

text \<open>
  Sizes and offsets are natural numbers; the difference of two of them is taken in
  \<open>size_t\<close>, so it wraps around modulo \<open>2^64\<close> when the subtrahend is the larger one.
\<close>

definition size_sub :: "nat \<Rightarrow> nat \<Rightarrow> nat" where
  "size_sub a b = (if b \<le> a then a - b else 2 ^ 64 - (b - a))"

lemma size_sub_le [simp]: "b \<le> a \<Longrightarrow> size_sub a b = a - b"
  by (simp add: size_sub_def)

lemma size_sub_ge_diff: "a - b \<le> size_sub a b"
  by (simp add: size_sub_def)

lemma size_sub_advance: "n \<le> size_sub a b \<Longrightarrow> size_sub a (b + n) = size_sub a b - n"
  by (auto simp: size_sub_def)

section \<open>Copying bytes\<close>

text \<open>\<open>bytes_at xs i n\<close> is what \<open>memcpy(dst, xs.data() + i, n)\<close> reads.\<close>

definition bytes_at :: "'a list \<Rightarrow> nat \<Rightarrow> nat \<Rightarrow> 'a list" where
  "bytes_at xs i n = take n (drop i xs)"

text \<open>\<open>overwrite xs i ys\<close> is the block \<open>xs\<close> after \<open>ys\<close> was stored from index \<open>i\<close> on.\<close>

definition overwrite :: "'a list \<Rightarrow> nat \<Rightarrow> 'a list \<Rightarrow> 'a list" where
  "overwrite xs i ys = take i xs @ ys @ drop (i + length ys) xs"

lemma length_overwrite [simp]:
  "i + length ys \<le> length xs \<Longrightarrow> length (overwrite xs i ys) = length xs"
  by (simp add: overwrite_def)

lemma take_overwrite:
  "i + length ys \<le> length xs \<Longrightarrow> take (i + length ys) (overwrite xs i ys) = take i xs @ ys"
  by (simp add: overwrite_def)

lemma drop_overwrite:
  "i + length ys \<le> length xs \<Longrightarrow> drop (i + length ys) (overwrite xs i ys) = drop (i + length ys) xs"
  by (simp add: overwrite_def)

lemma overwrite_resized:
  "overwrite (xs @ replicate (length ys + length zs) c) (length xs) ys
     = xs @ ys @ replicate (length zs) c"
  by (simp add: overwrite_def)

lemma overwrite_tail:
  "length zs = n \<Longrightarrow> overwrite (xs @ replicate n c) (length xs) zs = xs @ zs"
  by (simp add: overwrite_def)

section \<open>Counting list elements\<close>

definition num :: "('a \<Rightarrow> bool) \<Rightarrow> 'a list \<Rightarrow> nat" where
  "num P xs = length (filter P xs)"

lemma num_simps [simp]:
  "num P [] = 0" "num P (x # xs) = (if P x then Suc (num P xs) else num P xs)"
  by (simp_all add: num_def)

lemma num_append [simp]: "num P (xs @ ys) = num P xs + num P ys"
  by (simp add: num_def)

lemma num_replicate [simp]: "num P (replicate n x) = (if P x then n else 0)"
  by (simp add: num_def)

lemma sum_list_map_update:
  "i < length xs \<Longrightarrow>
     sum_list (map f (xs[i := y])) + f (xs ! i) = sum_list (map f xs) + (f y :: nat)"
  by (induction xs arbitrary: i) (auto simp: nth_Cons split: nat.splits)

lemma num_sum_list: "num P xs = sum_list (map (\<lambda>x. if P x then 1 else 0) xs)"
  by (induction xs) simp_all

lemma num_update:
  "i < length xs \<Longrightarrow>
     num P (xs[i := y]) + (if P (xs ! i) then 1 else 0) = num P xs + (if P y then 1 else 0)"
  unfolding num_sum_list by (rule sum_list_map_update)

lemma num_pos_iff: "0 < num P xs \<longleftrightarrow> (\<exists>i < length xs. P (xs ! i))"
  by (metis filter_empty_conv in_set_conv_nth length_greater_0_conv num_def)

lemma num_zero_iff: "num P xs = 0 \<longleftrightarrow> (\<forall>x \<in> set xs. \<not> P x)"
  by (simp add: num_def filter_empty_conv)

section \<open>Loops\<close>

text \<open>
  A loop of the source is the function that performs one iteration on the loop's
  variables: \<open>Inl s\<close> continues with \<open>s\<close>, \<open>Inr r\<close> leaves the loop with result \<open>r\<close>.
  A loop that runs for ever has the value \<open>None\<close>.
\<close>

partial_function (option) loop :: "('s \<Rightarrow> 's + 'r) \<Rightarrow> 's \<Rightarrow> 'r option" where
  "loop body s = (case body s of Inl s' \<Rightarrow> loop body s' | Inr r \<Rightarrow> Some r)"

lemma loop_continue: "body s = Inl s' \<Longrightarrow> loop body s = loop body s'"
  by (subst loop.simps) simp

lemma loop_leave: "body s = Inr r \<Longrightarrow> loop body s = Some r"
  by (subst loop.simps) simp

lemma loop_rule:
  fixes body :: "'s \<Rightarrow> 's + 'r"
  assumes ret: "loop body s = Some r"
    and init: "I s"
    and step: "\<And>s s'. I s \<Longrightarrow> body s = Inl s' \<Longrightarrow> I s'"
    and leave: "\<And>s r. I s \<Longrightarrow> body s = Inr r \<Longrightarrow> Q r"
  shows "Q r"
proof -
  have "I s \<longrightarrow> Q r"
  proof (rule loop.raw_induct [where P = "\<lambda>b s r. b = body \<longrightarrow> I s \<longrightarrow> Q r", OF _ ret, THEN mp, OF _ refl])
    fix f :: "('s \<Rightarrow> 's + 'r) \<Rightarrow> 's \<Rightarrow> 'r option" and b s r
    assume IH: "\<And>b s r. f b s = Some r \<Longrightarrow> b = body \<longrightarrow> I s \<longrightarrow> Q r"
      and eq: "(case b s of Inl s' \<Rightarrow> f b s' | Inr r \<Rightarrow> Some r) = Some r"
    show "b = body \<longrightarrow> I s \<longrightarrow> Q r"
    proof (cases "b s")
      case (Inl s')
      with IH [of b s' r] eq step [of s s'] show ?thesis by auto
    next
      case (Inr q)
      with eq leave [of s r] show ?thesis by auto
    qed
  qed
  with init show ?thesis by simp
qed

lemma loop_terminates:
  assumes wf: "wf R"
    and init: "I s"
    and step: "\<And>s s'. I s \<Longrightarrow> body s = Inl s' \<Longrightarrow> I s' \<and> (s', s) \<in> R"
  shows "\<exists>r. loop body s = Some r"
  using init
proof (induction s rule: wf_induct_rule [OF wf])
  case (1 s)
  show ?case
  proof (cases "body s")
    case (Inl s')
    with 1 step show ?thesis by (metis loop_continue)
  next
    case (Inr r)
    then show ?thesis by (auto dest: loop_leave)
  qed
qed

text \<open>A loop whose every iteration continues never returns.\<close>

lemma loop_diverges:
  assumes "I s"
    and "\<And>s. I s \<Longrightarrow> \<exists>s'. body s = Inl s' \<and> I s'"
  shows "loop body s = None"
proof (cases "loop body s")
  case (Some r)
  then have False
    by (rule loop_rule [where I = I]) (use assms in fastforce)+
  then show ?thesis ..
qed

text \<open>Two loops whose iterations agree step by step return related results.\<close>

lemma loop_simulation:
  fixes f :: "'s \<Rightarrow> 's + 'r" and g :: "'t \<Rightarrow> 't + 'q"
  assumes rel: "A s t"
    and cont: "\<And>s t s'. A s t \<Longrightarrow> f s = Inl s' \<Longrightarrow> \<exists>t'. g t = Inl t' \<and> A s' t'"
    and leave: "\<And>s t r. A s t \<Longrightarrow> f s = Inr r \<Longrightarrow> g t = Inr (h r)"
  shows "loop g t = map_option h (loop f s)"
proof (cases "loop f s")
  case (Some r)
  have "\<forall>t. A s t \<longrightarrow> loop g t = Some (h r)"
  proof (rule loop.raw_induct
      [where P = "\<lambda>b s r. b = f \<longrightarrow> (\<forall>t. A s t \<longrightarrow> loop g t = Some (h r))", OF _ Some, THEN mp, OF _ refl])
    fix k :: "('s \<Rightarrow> 's + 'r) \<Rightarrow> 's \<Rightarrow> 'r option" and b s r
    assume IH: "\<And>b s r. k b s = Some r \<Longrightarrow> b = f \<longrightarrow> (\<forall>t. A s t \<longrightarrow> loop g t = Some (h r))"
      and eq: "(case b s of Inl s' \<Rightarrow> k b s' | Inr r \<Rightarrow> Some r) = Some r"
    show "b = f \<longrightarrow> (\<forall>t. A s t \<longrightarrow> loop g t = Some (h r))"
    proof (cases "b s")
      case (Inl s')
      show ?thesis
      proof (intro impI allI)
        fix t assume "b = f" and "A s t"
        with Inl cont obtain t' where "g t = Inl t'" and "A s' t'" by blast
        moreover from this IH [of b s' r] eq Inl \<open>b = f\<close> have "loop g t' = Some (h r)" by simp
        ultimately show "loop g t = Some (h r)" using loop_continue [of g t t'] by simp
      qed
    next
      case (Inr q)
      with eq leave [of s _ r] show ?thesis by (auto intro: loop_leave)
    qed
  qed
  with rel Some show ?thesis by simp
next
  case None
  let ?I = "\<lambda>t. \<exists>s. A s t \<and> loop f s = None"
  have "loop g t = None"
  proof (rule loop_diverges [where I = ?I])
    show "?I t" using rel None by blast
  next
    fix t assume "?I t"
    then obtain s where s: "A s t" "loop f s = None" by blast
    then obtain s' where f: "f s = Inl s'"
      by (cases "f s") (auto dest: loop_leave)
    with s cont obtain t' where "g t = Inl t'" "A s' t'" by blast
    moreover have "loop f s' = None" using f s(2) by (simp add: loop_continue)
    ultimately show "\<exists>t'. g t = Inl t' \<and> ?I t'" by blast
  qed
  with None show ?thesis by simp
qed

end
