(* ===== verification/Os_Interface.thy ===== *)
theory Os_Interface
  imports Netpulse_Prelude
begin

text \<open>
  The operating system is a parameter of the model: a record of the system calls the
  program makes, each a function on an arbitrary world \<open>'w\<close>. A definition that makes a
  system call takes this record, and a theorem that needs to know something about a call
  says so with one of the contracts below, each of which is documented behaviour of the
  call. No theorem relies on anything else about the world.
\<close>

section \<open>Results of system calls\<close>

text \<open>
  \<open>Fail e\<close> is the return value \<open>-1\<close> with \<open>errno = e\<close>; every other return value is
  \<open>Ok\<close>.
\<close>

datatype 'a sys_ret = Ok 'a | Fail errno

text \<open>The host's byte order decides how an integer lies in memory.\<close>

datatype endian = Little | Big

section \<open>epoll constants\<close>

abbreviation EPOLLIN :: u32 where "EPOLLIN \<equiv> 1"
abbreviation EPOLLOUT :: u32 where "EPOLLOUT \<equiv> 4"
abbreviation EPOLLERR :: u32 where "EPOLLERR \<equiv> 8"
abbreviation EPOLLHUP :: u32 where "EPOLLHUP \<equiv> 16"
abbreviation EPOLLRDHUP :: u32 where "EPOLLRDHUP \<equiv> 8192"

datatype epoll_op = EPOLL_CTL_ADD | EPOLL_CTL_DEL | EPOLL_CTL_MOD

record epoll_event =
  ev_events :: u32
  ev_data_fd :: fd

text \<open>\<open>EFD_NONBLOCK | EFD_CLOEXEC\<close>, \<open>EPOLL_CLOEXEC\<close>, \<open>SOCK_NONBLOCK | SOCK_CLOEXEC\<close>,
  \<open>MSG_NOSIGNAL\<close> and \<open>O_NONBLOCK\<close> as Linux defines them.\<close>

abbreviation MSG_NOSIGNAL :: int where "MSG_NOSIGNAL \<equiv> 16384"
abbreviation EPOLL_CLOEXEC :: int where "EPOLL_CLOEXEC \<equiv> 524288"
abbreviation EFD_NONBLOCK_CLOEXEC :: int where "EFD_NONBLOCK_CLOEXEC \<equiv> 526336"
abbreviation SOCK_NONBLOCK_CLOEXEC :: int where "SOCK_NONBLOCK_CLOEXEC \<equiv> 526336"
abbreviation O_NONBLOCK :: u32 where "O_NONBLOCK \<equiv> 2048"

section \<open>The system calls\<close>

text \<open>
  \<open>sys_recv\<close> returns the bytes it stored in the caller's buffer (none of them at the end
  of the stream), \<open>sys_epoll_wait\<close> the events it stored in the caller's array, and
  \<open>sys_read_u64\<close> / \<open>sys_write_u64\<close> are \<open>read\<close> / \<open>write\<close> of eight bytes on an eventfd:
  the number of bytes transferred and, for a read, the value stored. \<open>sys_errno\<close> reads
  the thread's \<open>errno\<close>.
\<close>

record 'w os =
  sys_send :: "fd \<Rightarrow> bytes \<Rightarrow> int \<Rightarrow> 'w \<Rightarrow> nat sys_ret \<times> 'w"
  sys_recv :: "fd \<Rightarrow> nat \<Rightarrow> int \<Rightarrow> 'w \<Rightarrow> bytes sys_ret \<times> 'w"
  sys_close :: "fd \<Rightarrow> 'w \<Rightarrow> 'w"
  sys_accept4 :: "fd \<Rightarrow> int \<Rightarrow> 'w \<Rightarrow> fd sys_ret \<times> 'w"
  sys_epoll_create1 :: "int \<Rightarrow> 'w \<Rightarrow> fd sys_ret \<times> 'w"
  sys_epoll_ctl :: "fd \<Rightarrow> epoll_op \<Rightarrow> fd \<Rightarrow> epoll_event option \<Rightarrow> 'w \<Rightarrow> unit sys_ret \<times> 'w"
  sys_epoll_wait :: "fd \<Rightarrow> nat \<Rightarrow> int \<Rightarrow> 'w \<Rightarrow> epoll_event list sys_ret \<times> 'w"
  sys_eventfd :: "u32 \<Rightarrow> int \<Rightarrow> 'w \<Rightarrow> fd sys_ret \<times> 'w"
  sys_write_u64 :: "fd \<Rightarrow> u64 \<Rightarrow> 'w \<Rightarrow> nat sys_ret \<times> 'w"
  sys_read_u64 :: "fd \<Rightarrow> 'w \<Rightarrow> (nat \<times> u64) sys_ret \<times> 'w"
  sys_fcntl_getfl :: "fd \<Rightarrow> 'w \<Rightarrow> u32 sys_ret \<times> 'w"
  sys_fcntl_setfl :: "fd \<Rightarrow> u32 \<Rightarrow> 'w \<Rightarrow> unit sys_ret \<times> 'w"
  sys_errno :: "'w \<Rightarrow> errno"

section \<open>Contracts\<close>

text \<open>
  \<open>send(2)\<close>: a successful call has taken a prefix of the data offered, and the bytes
  taken are appended to what the socket has transmitted so far (\<open>out\<close>); a failing call
  takes nothing.
\<close>

definition send_contract :: "'w os \<Rightarrow> (fd \<Rightarrow> 'w \<Rightarrow> bytes) \<Rightarrow> bool" where
  "send_contract os out \<longleftrightarrow>
     (\<forall>fd data flags w.
        (\<forall>n w'. sys_send os fd data flags w = (Ok n, w') \<longrightarrow>
           n \<le> length data \<and> out fd w' = out fd w @ take n data
           \<and> (\<forall>g. g \<noteq> fd \<longrightarrow> out g w' = out g w))
      \<and> (\<forall>e w'. sys_send os fd data flags w = (Fail e, w') \<longrightarrow> (\<forall>g. out g w' = out g w)))"

text \<open>
  \<open>recv(2)\<close>: a successful call stores at most as many bytes as the buffer holds, and
  they are the next bytes of the stream that was received on the socket (\<open>inp\<close>).
\<close>

definition recv_contract :: "'w os \<Rightarrow> (fd \<Rightarrow> 'w \<Rightarrow> bytes) \<Rightarrow> bool" where
  "recv_contract os inp \<longleftrightarrow>
     (\<forall>fd n flags w.
        (\<forall>bs w'. sys_recv os fd n flags w = (Ok bs, w') \<longrightarrow>
           length bs \<le> n \<and> inp fd w' = inp fd w @ bs)
      \<and> (\<forall>e w'. sys_recv os fd n flags w = (Fail e, w') \<longrightarrow> inp fd w' = inp fd w))"

text \<open>
  Signals interrupt a call only finitely often: some measure of the world goes down
  whenever a call fails with \<open>EINTR\<close>.
\<close>

definition send_interrupts_end :: "'w os \<Rightarrow> ('w \<Rightarrow> nat) \<Rightarrow> bool" where
  "send_interrupts_end os m \<longleftrightarrow>
     (\<forall>fd data flags w w'. sys_send os fd data flags w = (Fail EINTR, w') \<longrightarrow> m w' < m w)"

definition recv_interrupts_end :: "'w os \<Rightarrow> ('w \<Rightarrow> nat) \<Rightarrow> bool" where
  "recv_interrupts_end os m \<longleftrightarrow>
     (\<forall>fd n flags w w'. sys_recv os fd n flags w = (Fail EINTR, w') \<longrightarrow> m w' < m w)"

text \<open>
  The peer's data that is available on a socket is finite: the measure also goes down
  when a call returns data.
\<close>

definition recv_drains :: "'w os \<Rightarrow> fd \<Rightarrow> ('w \<Rightarrow> nat) \<Rightarrow> bool" where
  "recv_drains os fd m \<longleftrightarrow>
     (\<forall>n flags w w'. sys_recv os fd n flags w = (Fail EINTR, w') \<longrightarrow> m w' < m w)
   \<and> (\<forall>n flags w bs w'. sys_recv os fd n flags w = (Ok bs, w') \<longrightarrow> bs \<noteq> [] \<longrightarrow> m w' < m w)"

lemma send_contractD [os_contracts]:
  assumes "send_contract os out"
  shows "sys_send os fd data flags w = (Ok n, w') \<Longrightarrow> n \<le> length data"
    and "sys_send os fd data flags w = (Ok n, w') \<Longrightarrow> out fd w' = out fd w @ take n data"
    and "sys_send os fd data flags w = (Ok n, w') \<Longrightarrow> g \<noteq> fd \<Longrightarrow> out g w' = out g w"
    and "sys_send os fd data flags w = (Fail e, w') \<Longrightarrow> out g w' = out g w"
  using assms unfolding send_contract_def by blast+

lemma recv_contractD [os_contracts]:
  assumes "recv_contract os inp"
  shows "sys_recv os fd n flags w = (Ok bs, w') \<Longrightarrow> length bs \<le> n"
    and "sys_recv os fd n flags w = (Ok bs, w') \<Longrightarrow> inp fd w' = inp fd w @ bs"
    and "sys_recv os fd n flags w = (Fail e, w') \<Longrightarrow> inp fd w' = inp fd w"
  using assms unfolding recv_contract_def by blast+

lemma interrupts_endD [os_contracts]:
  "send_interrupts_end os m \<Longrightarrow> sys_send os fd data flags w = (Fail EINTR, w') \<Longrightarrow> m w' < m w"
  "recv_interrupts_end os m \<Longrightarrow> sys_recv os fd n flags w = (Fail EINTR, w') \<Longrightarrow> m w' < m w"
  "recv_drains os fd m \<Longrightarrow> sys_recv os fd n flags w = (Fail EINTR, w') \<Longrightarrow> m w' < m w"
  "recv_drains os fd m \<Longrightarrow> sys_recv os fd n flags w = (Ok bs, w') \<Longrightarrow> bs \<noteq> [] \<Longrightarrow> m w' < m w"
  unfolding send_interrupts_end_def recv_interrupts_end_def recv_drains_def by blast+

end
