(* ===== verification/Sample_Kernel.thy ===== *)
theory Sample_Kernel
  imports Os_Interface
begin

text \<open>
  A small kernel that satisfies the contracts of \<open>Os_Interface\<close>. It is not part of the
  model of the program: the theorems hold for every operating system that keeps the
  contracts, and this one shows that such systems exist. Its sockets take three bytes and
  deliver five bytes at a time, so that partial transfers occur, and pending signals
  interrupt the calls.
\<close>

unbundle bit_operations_syntax

record kernel =
  k_out :: "fd \<Rightarrow> bytes"
  k_in :: "fd \<Rightarrow> bytes"
  k_avail :: "fd \<Rightarrow> bytes"
  k_eof :: "fd \<Rightarrow> bool"
  k_intr :: nat
  k_ctr :: nat
  k_interest :: "fd \<rightharpoonup> u32"
  k_backlog :: "fd list"
  k_flags :: "fd \<Rightarrow> u32"
  k_ready :: "epoll_event list"
  k_errno :: errno
  k_open :: "fd set"
  k_accepted :: nat

text \<open>A call that a signal interrupts, and otherwise does \<open>f\<close>.\<close>

definition interruptible :: "(kernel \<Rightarrow> 'a sys_ret \<times> kernel) \<Rightarrow> kernel \<Rightarrow> 'a sys_ret \<times> kernel" where
  "interruptible f k =
     (if 0 < k_intr k then (Fail EINTR, k\<lparr>k_intr := k_intr k - 1\<rparr>) else f k)"

definition sample_os :: "kernel os" where
  "sample_os = \<lparr>
     sys_send = (\<lambda>fd data flags. interruptible (\<lambda>k.
       let n = min 3 (length data)
       in (Ok n, k\<lparr>k_out := (k_out k)(fd := k_out k fd @ take n data)\<rparr>))),
     sys_recv = (\<lambda>fd n flags. interruptible (\<lambda>k.
       if k_avail k fd = [] then (if k_eof k fd then Ok [] else Fail EAGAIN, k)
       else let bs = take (min 5 n) (k_avail k fd)
         in (Ok bs, k\<lparr>k_in := (k_in k)(fd := k_in k fd @ bs),
                     k_avail := (k_avail k)(fd := drop (min 5 n) (k_avail k fd))\<rparr>))),
     sys_close = (\<lambda>fd k. k\<lparr>k_interest := (k_interest k)(fd := None), k_open := k_open k - {fd}\<rparr>),
     sys_accept4 = (\<lambda>fd flags k.
       case k_backlog k of [] \<Rightarrow> (Fail EAGAIN, k)
       | c # cs \<Rightarrow>
           if 0 \<le> c \<and> c \<notin> k_open k \<and> k_accepted k + 1 < 2 ^ 64 - 1 then
             (Ok c, k\<lparr>k_backlog := cs, k_open := insert c (k_open k), k_accepted := k_accepted k + 1,
                k_in := (k_in k)(c := []), k_out := (k_out k)(c := [])\<rparr>)
           else (Fail EMFILE, k\<lparr>k_backlog := cs\<rparr>)),
     sys_epoll_create1 = (\<lambda>flags k.
       if 3 \<notin> k_open k then
         (Ok 3, k\<lparr>k_open := insert 3 (k_open k), k_interest := Map.empty\<rparr>)
       else (Fail EMFILE, k)),
     sys_epoll_ctl = (\<lambda>epfd op fd ev k.
       case (op, ev) of
         (EPOLL_CTL_ADD, Some e) \<Rightarrow>
           if k_interest k fd = None then
             (Ok (), k\<lparr>k_interest := (k_interest k)(fd \<mapsto> ev_events e)\<rparr>)
           else (Fail 17, k)
       | (EPOLL_CTL_MOD, Some e) \<Rightarrow>
           if k_interest k fd \<noteq> None then
             (Ok (), k\<lparr>k_interest := (k_interest k)(fd \<mapsto> ev_events e)\<rparr>)
           else (Fail ENOENT, k)
       | (EPOLL_CTL_DEL, _) \<Rightarrow>
           if k_interest k fd \<noteq> None then
             (Ok (), k\<lparr>k_interest := (k_interest k)(fd := None)\<rparr>)
           else (Fail ENOENT, k)
       | _ \<Rightarrow> (Fail EINVAL, k)),
     sys_epoll_wait = (\<lambda>epfd n timeout. interruptible (\<lambda>k. (Ok (take n (k_ready k)), k\<lparr>k_ready := []\<rparr>))),
     sys_eventfd = (\<lambda>init flags k.
       if 4 \<notin> k_open k then (Ok 4, k\<lparr>k_ctr := unat init, k_open := insert 4 (k_open k)\<rparr>)
       else (Fail EMFILE, k)),
     sys_write_u64 = (\<lambda>fd v. interruptible (\<lambda>k.
       if k_ctr k + unat v < 2 ^ 64 - 1 then (Ok 8, k\<lparr>k_ctr := k_ctr k + unat v\<rparr>)
       else (Fail EAGAIN, k))),
     sys_read_u64 = (\<lambda>fd. interruptible (\<lambda>k.
       if 0 < k_ctr k \<and> k_ctr k < 2 ^ 64 then (Ok (8, of_nat (k_ctr k)), k\<lparr>k_ctr := 0\<rparr>)
       else if k_ctr k = 0 then (Fail EAGAIN, k) else (Fail EIO, k))),
     sys_fcntl_getfl = (\<lambda>fd k. (Ok (k_flags k fd), k)),
     sys_fcntl_setfl = (\<lambda>fd flags k. (Ok (), k\<lparr>k_flags := (k_flags k)(fd := flags)\<rparr>)),
     sys_errno = k_errno\<rparr>"

text \<open>The same kernel with sockets that transfer everything at once.\<close>

definition bulk_os :: "kernel os" where
  "bulk_os = sample_os\<lparr>
     sys_send := (\<lambda>fd data flags k.
       (Ok (length data), k\<lparr>k_out := (k_out k)(fd := k_out k fd @ data)\<rparr>)),
     sys_recv := (\<lambda>fd n flags k.
       if k_avail k fd = [] then (if k_eof k fd then Ok [] else Fail EAGAIN, k)
       else (Ok (take n (k_avail k fd)),
             k\<lparr>k_in := (k_in k)(fd := k_in k fd @ take n (k_avail k fd)),
               k_avail := (k_avail k)(fd := drop n (k_avail k fd))\<rparr>))\<rparr>"

definition sample_world :: kernel where
  "sample_world = \<lparr>k_out = (\<lambda>_. []), k_in = (\<lambda>_. []), k_avail = (\<lambda>_. []), k_eof = (\<lambda>_. False),
     k_intr = 1, k_ctr = 0, k_interest = Map.empty, k_backlog = [], k_flags = (\<lambda>_. 0),
     k_ready = [], k_errno = 0, k_open = {7}, k_accepted = 0\<rparr>"

abbreviation sample_out :: "fd \<Rightarrow> kernel \<Rightarrow> bytes" where
  "sample_out fd k \<equiv> k_out k fd"

abbreviation sample_in :: "fd \<Rightarrow> kernel \<Rightarrow> bytes" where
  "sample_in fd k \<equiv> k_in k fd"

definition sample_measure :: "fd \<Rightarrow> kernel \<Rightarrow> nat" where
  "sample_measure fd k = k_intr k + length (k_avail k fd)"

lemma sample_send_contract: "send_contract sample_os sample_out"
  by (auto simp: send_contract_def sample_os_def interruptible_def Let_def split: if_splits)

lemma sample_recv_contract: "recv_contract sample_os sample_in"
  by (auto simp: recv_contract_def sample_os_def interruptible_def Let_def split: if_splits)

lemma sample_send_interrupts: "send_interrupts_end sample_os k_intr"
  by (auto simp: send_interrupts_end_def sample_os_def interruptible_def Let_def split: if_splits)

lemma sample_recv_interrupts: "recv_interrupts_end sample_os k_intr"
  by (auto simp: recv_interrupts_end_def sample_os_def interruptible_def Let_def split: if_splits)

lemma sample_recv_drains: "recv_drains sample_os fd (sample_measure fd)"
  by (auto simp: recv_drains_def sample_os_def interruptible_def sample_measure_def Let_def
      split: if_splits)

lemma bulk_contracts: "send_contract bulk_os sample_out" "recv_contract bulk_os sample_in"
  by (auto simp: send_contract_def recv_contract_def bulk_os_def split: if_splits)

lemmas sample_contracts = sample_send_contract sample_recv_contract sample_send_interrupts
  sample_recv_interrupts sample_recv_drains

end
