(* ===== verification/Owned_Descriptor.thy ===== *)
theory Owned_Descriptor
  imports Os_Interface
begin

text \<open>
  The contract shared by the RAII classes \<open>Socket\<close>, \<open>Epoll\<close> and \<open>EventFd\<close>: an object
  owns at most one file descriptor, moving an object moves the descriptor, and an object
  that is assigned to or destroyed closes what it owned. Objects live in a store indexed
  by their address, because move assignment behaves differently when an object is
  assigned to itself.
\<close>

section \<open>Closing, storing and assigning\<close>

text \<open>\<open>if (valid()) ::close(fd_);\<close>\<close>

definition close_if_valid :: "'w os \<Rightarrow> fd \<Rightarrow> 'w \<Rightarrow> 'w" where
  "close_if_valid os fd w = (if 0 \<le> fd then sys_close os fd w else w)"

text \<open>
  \<open>operator=(T&& other)\<close> on two addresses of the store: \<open>assign\<close> is the code that runs
  under the test \<open>this != &other\<close>.
\<close>

definition store_assign ::
  "('h \<Rightarrow> 'h \<Rightarrow> 'w \<Rightarrow> 'h \<times> 'h \<times> 'w) \<Rightarrow> 'a \<Rightarrow> 'a \<Rightarrow> ('a \<Rightarrow> 'h) \<times> 'w \<Rightarrow> ('a \<Rightarrow> 'h) \<times> 'w" where
  "store_assign assign this other = (\<lambda>(store, w).
     if this \<noteq> other then
       (case assign (store this) (store other) w of
          (t, s, w') \<Rightarrow> (store(this := t, other := s), w'))
     else (store, w))"

text \<open>No two addresses own the same descriptor.\<close>

definition unique_owners :: "('h \<Rightarrow> fd) \<Rightarrow> ('a \<Rightarrow> 'h) \<Rightarrow> bool" where
  "unique_owners fd_of store \<longleftrightarrow>
     (\<forall>a b. 0 \<le> fd_of (store a) \<and> fd_of (store a) = fd_of (store b) \<longrightarrow> a = b)"

lemma unique_ownersD:
  "unique_owners fd_of store \<Longrightarrow> 0 \<le> fd_of (store a) \<Longrightarrow> fd_of (store a) = fd_of (store b) \<Longrightarrow> a = b"
  by (simp add: unique_owners_def)

section \<open>The interface\<close>

locale owned_descriptor =
  fixes fd_of :: "'h \<Rightarrow> fd"
    and move :: "'h \<Rightarrow> 'h \<times> 'h"
    and assign :: "'w os \<Rightarrow> 'h \<Rightarrow> 'h \<Rightarrow> 'w \<Rightarrow> 'h \<times> 'h \<times> 'w"
    and destroy :: "'w os \<Rightarrow> 'h \<Rightarrow> 'w \<Rightarrow> 'w"
  assumes move_fd: "move h = (new, old) \<Longrightarrow> fd_of new = fd_of h \<and> fd_of old = -1"
    and assign_fd: "\<lbrakk>\<not> (0 \<le> fd_of t \<and> fd_of t = fd_of s); assign os t s w = (t', s', w')\<rbrakk> \<Longrightarrow>
      fd_of t' = fd_of s \<and> fd_of s' = -1 \<and> w' = close_if_valid os (fd_of t) w"
    and destroy_closes: "destroy os h w = close_if_valid os (fd_of h) w"
begin

lemma store_assign_self: "store_assign (assign os) a a (store, w) = (store, w)"
  by (simp add: store_assign_def)

lemma store_assign_distinct:
  assumes uniq: "unique_owners fd_of store" and ne: "a \<noteq> b"
    and asg: "store_assign (assign os) a b (store, w) = (store', w')"
  shows "fd_of (store' a) = fd_of (store b)" and "fd_of (store' b) = -1"
    and "\<And>c. c \<noteq> a \<Longrightarrow> c \<noteq> b \<Longrightarrow> store' c = store c"
    and "w' = close_if_valid os (fd_of (store a)) w"
proof -
  obtain t s v where r: "assign os (store a) (store b) w = (t, s, v)"
    by (cases "assign os (store a) (store b) w") auto
  have "\<not> (0 \<le> fd_of (store a) \<and> fd_of (store a) = fd_of (store b))"
    using uniq ne by (auto simp: unique_owners_def)
  from assign_fd [OF this r]
  have "fd_of t = fd_of (store b)" "fd_of s = -1" "v = close_if_valid os (fd_of (store a)) w"
    by auto
  moreover from asg ne r have "store' = store(a := t, b := s)" "w' = v"
    by (simp_all add: store_assign_def)
  ultimately show "fd_of (store' a) = fd_of (store b)" and "fd_of (store' b) = -1"
    and "\<And>c. c \<noteq> a \<Longrightarrow> c \<noteq> b \<Longrightarrow> store' c = store c"
    and "w' = close_if_valid os (fd_of (store a)) w"
    using ne by simp_all
qed

text \<open>Assignment keeps ownership unique, and what it closes is owned by nobody afterwards.\<close>

lemma store_assign_unique:
  assumes "unique_owners fd_of store"
    and "store_assign (assign os) a b (store, w) = (store', w')"
  shows "unique_owners fd_of store'"
proof (cases "a = b")
  case True
  with assms show ?thesis by (simp add: store_assign_self)
next
  case False
  note eq = store_assign_distinct [OF assms(1) False assms(2)]
  have other: "fd_of (store' c) = fd_of (store c)" if "c \<noteq> a" "c \<noteq> b" for c
    using eq(3) [OF that] by simp
  show ?thesis
    unfolding unique_owners_def
  proof (intro allI impI)
    fix x y assume xy: "0 \<le> fd_of (store' x) \<and> fd_of (store' x) = fd_of (store' y)"
    then have "x \<noteq> b" "y \<noteq> b" using eq(2) by auto
    then have "fd_of (store' x) = fd_of (store (if x = a then b else x))"
      and "fd_of (store' y) = fd_of (store (if y = a then b else y))"
      using eq(1) other by auto
    with xy have "(if x = a then b else x) = (if y = a then b else y)"
      by (intro unique_ownersD [OF assms(1)]) simp_all
    then show "x = y" using \<open>x \<noteq> b\<close> \<open>y \<noteq> b\<close> by (auto split: if_splits)
  qed
qed

lemma store_assign_closed_unowned:
  assumes uniq: "unique_owners fd_of store" and ne: "a \<noteq> b" and owned: "0 \<le> fd_of (store a)"
    and asg: "store_assign (assign os) a b (store, w) = (store', w')"
  shows "w' = sys_close os (fd_of (store a)) w" and "fd_of (store' c) \<noteq> fd_of (store a)"
proof -
  note eq = store_assign_distinct [OF uniq ne asg]
  show "w' = sys_close os (fd_of (store a)) w" using eq(4) owned by (simp add: close_if_valid_def)
  have "fd_of (store d) = fd_of (store a) \<Longrightarrow> d = a" for d
    using unique_ownersD [OF uniq owned, of d] by simp
  then show "fd_of (store' c) \<noteq> fd_of (store a)"
    using eq(1-3) ne owned by (cases "c = a"; cases "c = b") auto
qed

end

end
