(* ===== verification/Socket_Handle.thy ===== *)
theory Socket_Handle
  imports Owned_Descriptor Sample_Kernel
begin

text \<open>
  The class \<open>Socket\<close>: \<open>include/netpulse/network/socket.hpp\<close> and
  \<open>src/network/socket.cpp\<close>.
\<close>

record Socket =
  sock_fd :: fd

definition Socket_default :: Socket where
  "Socket_default = \<lparr>sock_fd = -1\<rparr>"

definition Socket_of_fd :: "fd \<Rightarrow> Socket" where
  "Socket_of_fd fd = \<lparr>sock_fd = fd\<rparr>"

definition socket_valid :: "Socket \<Rightarrow> bool" where
  "socket_valid s \<longleftrightarrow> 0 \<le> sock_fd s"

definition socket_release :: "Socket \<Rightarrow> fd \<times> Socket" where
  "socket_release s = (sock_fd s, s\<lparr>sock_fd := -1\<rparr>)"

definition socket_reset :: "'w os \<Rightarrow> fd \<Rightarrow> Socket \<Rightarrow> 'w \<Rightarrow> Socket \<times> 'w" where
  "socket_reset os new_fd s w =
     (if sock_fd s = new_fd then (s, w)
      else
        let w' = (if socket_valid s then sys_close os (sock_fd s) w else w)
        in (s\<lparr>sock_fd := new_fd\<rparr>, w'))"

text \<open>The destructor, the move constructor (new object, moved-from object) and the body of
  the move assignment (assigned object, moved-from object).\<close>

definition socket_destroy :: "'w os \<Rightarrow> Socket \<Rightarrow> 'w \<Rightarrow> 'w" where
  "socket_destroy os s w = snd (socket_reset os (-1) s w)"

definition socket_move :: "Socket \<Rightarrow> Socket \<times> Socket" where
  "socket_move s = (case socket_release s of (fd, s') \<Rightarrow> (\<lparr>sock_fd = fd\<rparr>, s'))"

definition socket_assign :: "'w os \<Rightarrow> Socket \<Rightarrow> Socket \<Rightarrow> 'w \<Rightarrow> Socket \<times> Socket \<times> 'w" where
  "socket_assign os this other w =
     (case socket_release other of
        (fd, other') \<Rightarrow> (case socket_reset os fd this w of (this', w') \<Rightarrow> (this', other', w')))"

lemmas socket_defs = socket_valid_def socket_release_def socket_reset_def socket_destroy_def
  socket_move_def socket_assign_def close_if_valid_def

interpretation sock: owned_descriptor sock_fd socket_move socket_assign socket_destroy
  by unfold_locales (auto simp: socket_defs Let_def split: if_splits)

lemma socket_destroy_default [simp]: "socket_destroy os Socket_default w = w"
  by (simp add: socket_defs Socket_default_def)

section \<open>Properties\<close>

lemma socket_move_assignment_ownership_facts:
  assumes "unique_owners sock_fd store"
    and "store_assign (socket_assign os) a b (store, w) = (store', w')"
  shows "unique_owners sock_fd store'"
    and "a = b \<Longrightarrow> store' = store \<and> w' = w"
    and "a \<noteq> b \<Longrightarrow> sock_fd (store' a) = sock_fd (store b) \<and> sock_fd (store' b) = -1"
    and "a \<noteq> b \<Longrightarrow> 0 \<le> sock_fd (store a) \<Longrightarrow>
      w' = sys_close os (sock_fd (store a)) w \<and> (\<forall>c. sock_fd (store' c) \<noteq> sock_fd (store a))"
proof -
  show "unique_owners sock_fd store'" using assms by (rule sock.store_assign_unique)
  show "store' = store \<and> w' = w" if "a = b"
    using assms(2) that by (simp add: sock.store_assign_self)
  show "sock_fd (store' a) = sock_fd (store b) \<and> sock_fd (store' b) = -1" if "a \<noteq> b"
    using sock.store_assign_distinct [OF assms(1) that assms(2)] by simp
  show "w' = sys_close os (sock_fd (store a)) w \<and> (\<forall>c. sock_fd (store' c) \<noteq> sock_fd (store a))"
    if "a \<noteq> b" "0 \<le> sock_fd (store a)"
    using sock.store_assign_closed_unowned [OF assms(1) that assms(2)] by simp
qed

text \<open>C29: Move assignment between sockets keeps ownership unique: if no two sockets own the same
  descriptor before, none do after; the target then owns exactly what the source owned,
  the source owns nothing, the target's former descriptor is closed, and nobody owns it
  any more. Assigning a socket to itself changes nothing and closes nothing.\<close>

theorem socket_move_assignment_ownership:
  assumes "unique_owners sock_fd store"
    and "store_assign (socket_assign os) a b (store, w) = (store', w')"
  shows "unique_owners sock_fd store'
    \<and> (a = b \<longrightarrow> store' = store \<and> w' = w)
    \<and> (a \<noteq> b \<longrightarrow> sock_fd (store' a) = sock_fd (store b) \<and> sock_fd (store' b) = -1)
    \<and> (a \<noteq> b \<longrightarrow> 0 \<le> sock_fd (store a) \<longrightarrow>
         w' = sys_close os (sock_fd (store a)) w \<and> (\<forall>c. sock_fd (store' c) \<noteq> sock_fd (store a)))"
  using socket_move_assignment_ownership_facts [OF assms] by blast

theorem socket_move_assignment_ownership_witness:
  "unique_owners sock_fd (\<lambda>a :: bool. Socket_of_fd (if a then 5 else 6)) \<and>
   unique_owners sock_fd ((\<lambda>a :: bool. Socket_of_fd (if a then 5 else 6))
     (True := Socket_of_fd 6, False := Socket_of_fd (-1)))"
proof -
  let ?s = "\<lambda>a :: bool. Socket_of_fd (if a then 5 else 6)"
  have u: "unique_owners sock_fd ?s" by (auto simp: unique_owners_def Socket_of_fd_def split: if_splits)
  have a: "store_assign (socket_assign sample_os) True False (?s, sample_world) =
      (?s(True := Socket_of_fd 6, False := Socket_of_fd (-1)), sys_close sample_os 5 sample_world)"
    by (simp add: store_assign_def socket_defs Socket_of_fd_def)
  show ?thesis using socket_move_assignment_ownership [OF u a] u by blast
qed

end
