(* ===== verification/Byte_Order.thy ===== *)
theory Byte_Order
  imports Os_Interface
begin

text \<open>
  The four-byte length header on the wire. The source builds it with \<open>htonl\<close> and the
  object representation of a \<open>uint32_t\<close>, and reads it back with \<open>memcpy\<close> and
  \<open>ntohl\<close>; what these do depends on the host's byte order, which stays a parameter.
  The lemmas show that the bytes on the wire do not depend on it.
\<close>

unbundle bit_operations_syntax

section \<open>Objects in memory and network byte order\<close>

text \<open>The bytes of a word, most significant first, and the word they stand for.\<close>

definition be_bytes :: "u32 \<Rightarrow> bytes" where
  "be_bytes n = [ucast (drop_bit 24 n), ucast (drop_bit 16 n), ucast (drop_bit 8 n), ucast n]"

definition be_word :: "bytes \<Rightarrow> u32" where
  "be_word bs = foldl (\<lambda>acc b. push_bit 8 acc OR ucast b) 0 bs"

text \<open>The object representation of a \<open>uint32_t\<close> (\<open>std::as_bytes\<close>, \<open>memcpy\<close>).\<close>

definition bytes_of_u32 :: "endian \<Rightarrow> u32 \<Rightarrow> bytes" where
  "bytes_of_u32 e n = (case e of Big \<Rightarrow> be_bytes n | Little \<Rightarrow> rev (be_bytes n))"

definition u32_of_bytes :: "endian \<Rightarrow> bytes \<Rightarrow> u32" where
  "u32_of_bytes e bs = (case e of Big \<Rightarrow> be_word bs | Little \<Rightarrow> be_word (rev bs))"

definition bswap32 :: "u32 \<Rightarrow> u32" where
  "bswap32 x = drop_bit 24 (x AND 0xff000000) OR drop_bit 8 (x AND 0x00ff0000)
     OR push_bit 8 (x AND 0x0000ff00) OR push_bit 24 (x AND 0x000000ff)"

definition htonl :: "endian \<Rightarrow> u32 \<Rightarrow> u32" where
  "htonl e n = (case e of Big \<Rightarrow> n | Little \<Rightarrow> bswap32 n)"

definition ntohl :: "endian \<Rightarrow> u32 \<Rightarrow> u32" where
  "ntohl e n = (case e of Big \<Rightarrow> n | Little \<Rightarrow> bswap32 n)"

section \<open>The wire format does not depend on the host\<close>

lemma length_be_bytes [simp]: "length (be_bytes n) = 4"
  by (simp add: be_bytes_def)

lemma length_bytes_of_u32 [simp]: "length (bytes_of_u32 e n) = 4"
  by (simp add: bytes_of_u32_def split: endian.split)

lemma be_word_be_bytes [simp]: "be_word (be_bytes n) = n"
proof (rule bit_word_eqI)
  fix i assume "i < LENGTH(32)"
  then consider "i < 8" | "8 \<le> i" "i < 16" | "16 \<le> i" "i < 24" | "24 \<le> i" "i < 32"
    by fastforce
  then show "bit (be_word (be_bytes n)) i \<longleftrightarrow> bit n i"
    by cases (auto simp: be_word_def be_bytes_def bit_simps)
qed

lemma length_4_conv: "length bs = 4 \<longleftrightarrow> (\<exists>a b c d. bs = [a, b, c, d])"
  by (auto simp: length_Suc_conv eval_nat_numeral)

lemma byte_bit_beyond: "8 \<le> i \<Longrightarrow> \<not> bit (b :: byte) i"
  by (auto dest: bit_imp_le_length)

lemma be_bytes_be_word: "length bs = 4 \<Longrightarrow> be_bytes (be_word bs) = bs"
  unfolding length_4_conv be_word_def be_bytes_def
  by (auto intro!: bit_word_eqI simp: bit_simps byte_bit_beyond)

lemma bit_bswap32:
  "bit (bswap32 x) n \<longleftrightarrow>
     (if n < 8 then bit x (n + 24) else if n < 16 then bit x (n + 8)
      else if n < 24 then bit x (n - 8) else n < 32 \<and> bit x (n - 24))"
proof -
  have m: "0xff000000 = (push_bit 24 (mask 8) :: u32)" "0x00ff0000 = (push_bit 16 (mask 8) :: u32)"
    "0x0000ff00 = (push_bit 8 (mask 8) :: u32)" "0x000000ff = (mask 8 :: u32)"
    by (simp_all add: mask_eq_exp_minus_1)
  consider "n < 8" | "8 \<le> n" "n < 16" | "16 \<le> n" "n < 24" | "24 \<le> n" "n < 32" | "32 \<le> n"
    by fastforce
  then show ?thesis
    unfolding bswap32_def m by cases (auto simp: bit_simps add.commute dest: bit_imp_le_length)
qed

lemma be_bytes_bswap32: "be_bytes (bswap32 n) = rev (be_bytes n)"
  unfolding be_bytes_def by (auto intro!: bit_word_eqI simp: bit_simps bit_bswap32 add.commute)

lemma bytes_of_htonl [simp]: "bytes_of_u32 e (htonl e n) = be_bytes n"
  by (simp add: bytes_of_u32_def htonl_def be_bytes_bswap32 split: endian.split)

lemma be_word_rev: "length bs = 4 \<Longrightarrow> be_word (rev bs) = bswap32 (be_word bs)"
  by (metis be_bytes_be_word be_bytes_bswap32 be_word_be_bytes)

lemma bswap32_bswap32 [simp]: "bswap32 (bswap32 n) = n"
  by (metis be_bytes_bswap32 be_word_be_bytes rev_rev_ident)

lemma ntohl_u32_of_bytes [simp]: "length bs = 4 \<Longrightarrow> ntohl e (u32_of_bytes e bs) = be_word bs"
  by (simp add: ntohl_def u32_of_bytes_def be_word_rev split: endian.split)

end
