(* ===== verification/Wire_Format.thy ===== *)
theory Wire_Format
  imports Byte_Order
begin

text \<open>
  The abstract specification of the protocol, against which the implementations are
  proved: a frame is a four-byte big-endian length followed by that many bytes of
  payload, at most \<open>max_payload_size\<close> of them. The interface \<open>framing\<close> states what a
  length-prefixed format promises to the code that splits a byte stream into frames; its
  lemmas are what makes incremental decoding correct for every way the network cuts the
  stream into pieces.
\<close>

section \<open>The interface of a framing\<close>

datatype ('p, 'b) next_frame_result = Incomplete | Oversized | Frame 'p "'b list"

locale framing =
  fixes enc :: "'p \<Rightarrow> 'b list"
    and admissible :: "'p \<Rightarrow> bool"
    and nxt :: "'b list \<Rightarrow> ('p, 'b) next_frame_result"
    and parse :: "'b list \<Rightarrow> 'p list \<times> ('p, 'b) next_frame_result \<times> 'b list"
  assumes nxt_enc: "admissible p \<Longrightarrow> nxt (enc p @ s) = Frame p s"
    and nxt_more: "nxt s = Frame p r \<Longrightarrow> nxt (s @ t) = Frame p (r @ t)"
    and nxt_oversized_more: "nxt s = Oversized \<Longrightarrow> nxt (s @ t) = Oversized"
    and nxt_consumes: "nxt s = Frame p r \<Longrightarrow> length r < length s"
    and nxt_admissible: "nxt s = Frame p r \<Longrightarrow> admissible p \<and> s = enc p @ r"
    and nxt_empty: "nxt [] = Incomplete"
    and parse_eq: "parse s =
      (case nxt s of
         Frame p r \<Rightarrow> (case parse r of (ps, e, t) \<Rightarrow> (p # ps, e, t))
       | e \<Rightarrow> ([], e, s))"
begin

lemma parse_stops: "(\<And>p r. nxt s \<noteq> Frame p r) \<Longrightarrow> parse s = ([], nxt s, s)"
  by (subst parse_eq) (simp split: next_frame_result.split)

lemma parse_step: "nxt s = Frame p r \<Longrightarrow> parse r = (ps, e, t) \<Longrightarrow> parse s = (p # ps, e, t)"
  by (subst parse_eq) simp

lemma parse_induct [case_names Stop Step]:
  assumes "\<And>s. (\<And>p r. nxt s \<noteq> Frame p r) \<Longrightarrow> P s"
    and "\<And>s p r. nxt s = Frame p r \<Longrightarrow> P r \<Longrightarrow> P s"
  shows "P s"
proof (induction s rule: length_induct)
  case (1 s)
  show ?case
  proof (cases "\<exists>p r. nxt s = Frame p r")
    case True
    then obtain p r where "nxt s = Frame p r" by blast
    with 1 assms(2) nxt_consumes show ?thesis by blast
  next
    case False
    then show ?thesis using assms(1) by blast
  qed
qed

text \<open>
  Parsing a stream up to the end of a first piece and going on from the rest together
  with a second piece finds the frames of the whole stream.
\<close>

lemma parse_append_incomplete:
  "parse s = (ps, Incomplete, r) \<Longrightarrow> parse (r @ t) = (qs, e, u) \<Longrightarrow> parse (s @ t) = (ps @ qs, e, u)"
proof (induction s arbitrary: ps rule: parse_induct)
  case (Stop s)
  then show ?case using parse_stops [of s] by simp
next
  case (Step s p s')
  obtain ps' e' r' where rec: "parse s' = (ps', e', r')" by (cases "parse s'") auto
  with Step.hyps Step.prems have "ps = p # ps'" "e' = Incomplete" "r' = r"
    using parse_step [OF Step.hyps rec] by simp_all
  with rec Step.IH Step.prems(2) have "parse (s' @ t) = (ps' @ qs, e, u)" by simp
  with parse_step [OF nxt_more [OF Step.hyps]] \<open>ps = p # ps'\<close> show ?case by simp
qed

lemma parse_append_oversized:
  "parse s = (ps, Oversized, r) \<Longrightarrow> parse (s @ t) = (ps, Oversized, r @ t)"
proof (induction s arbitrary: ps rule: parse_induct)
  case (Stop s)
  then have "nxt s = Oversized" and "r = s" "ps = []" using parse_stops [of s] by auto
  then show ?case using nxt_oversized_more [of s t] parse_stops [of "s @ t"] by simp
next
  case (Step s p s')
  obtain ps' e' r' where rec: "parse s' = (ps', e', r')" by (cases "parse s'") auto
  with Step.hyps Step.prems have "ps = p # ps'" "e' = Oversized" "r' = r"
    using parse_step [OF Step.hyps rec] by simp_all
  with rec Step.IH have "parse (s' @ t) = (ps', Oversized, r @ t)" by simp
  with parse_step [OF nxt_more [OF Step.hyps]] \<open>ps = p # ps'\<close> show ?case by simp
qed

lemma parse_encodings:
  "(\<And>p. p \<in> set ps \<Longrightarrow> admissible p) \<Longrightarrow> parse s = (qs, e, u) \<Longrightarrow>
     parse (concat (map enc ps) @ s) = (ps @ qs, e, u)"
proof (induction ps)
  case Nil
  then show ?case by simp
next
  case (Cons p ps)
  then have "parse (concat (map enc ps) @ s) = (ps @ qs, e, u)" by simp
  with parse_step [OF nxt_enc] Cons.prems(1) show ?case by simp
qed

lemma parse_sound:
  "parse s = (ps, e, u) \<Longrightarrow>
     s = concat (map enc ps) @ u \<and> (\<forall>p \<in> set ps. admissible p)
     \<and> (e = Incomplete \<or> e = Oversized) \<and> nxt u = e"
proof (induction s arbitrary: ps rule: parse_induct)
  case (Stop s)
  then show ?case using parse_stops [of s] by (cases "nxt s") auto
next
  case (Step s p s')
  obtain ps' e' r' where rec: "parse s' = (ps', e', r')" by (cases "parse s'") auto
  with Step.hyps Step.prems have "ps = p # ps'" "e' = e" "r' = u"
    using parse_step [OF Step.hyps rec] by simp_all
  with rec Step.IH nxt_admissible [OF Step.hyps] show ?case by simp
qed

text \<open>No proper prefix of a frame is itself read as a frame or as an error.\<close>

lemma nxt_proper_prefix:
  assumes "admissible p" and "enc p = q @ t" and "t \<noteq> []"
  shows "nxt q = Incomplete"
proof (cases "nxt q")
  case (Frame p' r)
  have "nxt (enc p @ []) = Frame p []" using assms(1) by (rule nxt_enc)
  with nxt_more [OF Frame, of t] assms(2,3) show ?thesis by simp
next
  case Oversized
  with nxt_oversized_more [of q t] nxt_enc [OF assms(1), of "[]"] assms(2) show ?thesis by simp
qed

end

section \<open>NetPulse frames\<close>

definition max_payload_size :: u32 where
  "max_payload_size = 1024 * 1024"

definition encode_frame :: "bytes \<Rightarrow> bytes" where
  "encode_frame payload = be_bytes (of_nat (length payload)) @ payload"

definition fits_frame :: "bytes \<Rightarrow> bool" where
  "fits_frame payload \<longleftrightarrow> length payload \<le> unat max_payload_size"

definition next_frame :: "bytes \<Rightarrow> (bytes, byte) next_frame_result" where
  "next_frame s =
     (if length s < 4 then Incomplete
      else let n = be_word (take 4 s) in
        if max_payload_size < n then Oversized
        else if length s < 4 + unat n then Incomplete
        else Frame (take (unat n) (drop 4 s)) (drop (4 + unat n) s))"

function parse_frames :: "bytes \<Rightarrow> bytes list \<times> (bytes, byte) next_frame_result \<times> bytes" where
  "parse_frames s =
     (case next_frame s of
        Frame p r \<Rightarrow> (case parse_frames r of (ps, e, t) \<Rightarrow> (p # ps, e, t))
      | e \<Rightarrow> ([], e, s))"
  by pat_completeness auto
termination
  by (relation "measure length") (auto simp: next_frame_def Let_def split: if_splits)

declare parse_frames.simps [simp del]

section \<open>NetPulse frames are a framing\<close>

lemma unat_max_payload_size [simp]: "unat max_payload_size = 1048576"
  by (simp add: max_payload_size_def)

lemma unat_payload_length:
  "length p \<le> 1048576 \<Longrightarrow> unat (of_nat (length p) :: u32) = length p"
  by (simp add: unat_of_nat)

lemma length_encode_frame [simp]: "length (encode_frame p) = 4 + length p"
  by (simp add: encode_frame_def)

lemma payload_within_limit:
  "max_payload_size < (of_nat (length p) :: u32) \<longleftrightarrow> \<not> fits_frame p" if "length p < 2 ^ 32"
  using that by (simp add: word_less_nat_alt fits_frame_def unat_of_nat not_le)

lemma next_frame_encode: "fits_frame p \<Longrightarrow> next_frame (encode_frame p @ s) = Frame p s"
  by (simp add: next_frame_def encode_frame_def fits_frame_def Let_def word_less_nat_alt
      unat_payload_length)

lemma next_frame_append:
  "next_frame s \<noteq> Incomplete \<Longrightarrow> next_frame (s @ t) =
     (case next_frame s of Frame p r \<Rightarrow> Frame p (r @ t) | e \<Rightarrow> e)"
  by (auto simp: next_frame_def Let_def split: if_splits)

lemma next_frame_sound:
  assumes "next_frame s = Frame p r"
  shows "fits_frame p \<and> s = encode_frame p @ r"
proof -
  let ?n = "be_word (take 4 s)"
  from assms have len: "4 + unat ?n \<le> length s" and small: "?n \<le> max_payload_size"
    and p: "p = take (unat ?n) (drop 4 s)" and r: "r = drop (4 + unat ?n) s"
    by (auto simp: next_frame_def Let_def not_less split: if_splits)
  from len p have lp: "length p = unat ?n" by simp
  then have "encode_frame p = take 4 s @ p"
    using len by (simp add: encode_frame_def be_bytes_be_word)
  moreover have "take 4 s @ p @ r = s"
    using p r by (metis add.commute append_take_drop_id drop_drop)
  ultimately show ?thesis
    using small lp by (simp add: fits_frame_def word_le_nat_alt)
qed

interpretation wire: framing encode_frame fits_frame next_frame parse_frames
proof
  show "next_frame (encode_frame p @ s) = Frame p s" if "fits_frame p" for p s
    using that by (rule next_frame_encode)
  show "next_frame (s @ t) = Frame p (r @ t)" if "next_frame s = Frame p r" for s p r t
    using that next_frame_append [of s t] by simp
  show "next_frame (s @ t) = Oversized" if "next_frame s = Oversized" for s t
    using that next_frame_append [of s t] by simp
  show "length r < length s" if "next_frame s = Frame p r" for s p r
    using next_frame_sound [OF that] by simp
  show "fits_frame p \<and> s = encode_frame p @ r" if "next_frame s = Frame p r" for s p r
    using that by (rule next_frame_sound)
  show "next_frame [] = Incomplete" by (simp add: next_frame_def)
  show "parse_frames s =
      (case next_frame s of
         Frame p r \<Rightarrow> (case parse_frames r of (ps, e, t) \<Rightarrow> (p # ps, e, t))
       | e \<Rightarrow> ([], e, s))" for s
    by (rule parse_frames.simps)
qed

end
