(* ===== verification/Offset_Buffer.thy ===== *)
theory Offset_Buffer
  imports Netpulse_Prelude
begin

text \<open>
  The interface shared by the two buffers of the protocol layer. Both are a byte vector
  with an offset up to which its bytes are dead; both discard the dead bytes lazily. A
  client sees only the live bytes, and the lemmas here are stated over those.
\<close>

locale offset_buffer =
  fixes live :: "'b \<Rightarrow> bytes"
    and wf :: "'b \<Rightarrow> bool"
    and size_of :: "'b \<Rightarrow> nat"
    and compact :: "'b \<Rightarrow> 'b"
    and clear :: "'b \<Rightarrow> 'b"
  assumes size_live: "wf b \<Longrightarrow> size_of b = length (live b)"
    and live_compact: "wf b \<Longrightarrow> live (compact b) = live b"
    and wf_compact: "wf b \<Longrightarrow> wf (compact b)"
    and live_clear: "live (clear b) = []"
    and wf_clear: "wf (clear b)"
begin

lemma size_compact: "wf b \<Longrightarrow> size_of (compact b) = size_of b"
  by (simp add: size_live wf_compact live_compact)

lemma size_clear: "size_of (clear b) = 0"
  by (simp add: size_live wf_clear live_clear)

lemma size_zero_iff: "wf b \<Longrightarrow> size_of b = 0 \<longleftrightarrow> live b = []"
  by (simp add: size_live)

lemma size_after_prefix: "wf b \<Longrightarrow> live b = xs @ ys \<Longrightarrow> size_of b - length xs = length ys"
  by (simp add: size_live)

end

end
