(* ===== verification/Frame_Decoder.thy ===== *)
theory Frame_Decoder
  imports Wire_Format Offset_Buffer
begin

text \<open>
  The incremental decoder: \<open>include/netpulse/protocol/frame_decoder.hpp\<close> and
  \<open>src/protocol/frame_decoder.cpp\<close>. A decoder keeps the bytes received so far and the
  offset up to which they were decoded. \<open>decodeNext\<close> implements \<open>next_frame\<close> of the
  wire format on the live bytes; compaction bounds the memory held by dead bytes.
\<close>

section \<open>State and operations\<close>

datatype FrameDecodeStatus = need_more_data | frame_ready | payload_too_large

record FrameDecodeResult =
  dr_status :: FrameDecodeStatus
  dr_payload :: bytes

record FrameDecoder =
  dec_buffer :: bytes
  dec_read_offset :: nat

definition new_decoder :: FrameDecoder where
  "new_decoder = \<lparr>dec_buffer = [], dec_read_offset = 0\<rparr>"

definition kFrameHeaderSize :: nat where
  "kFrameHeaderSize = 4"

definition kCompactionThreshold :: nat where
  "kCompactionThreshold = 4096"

definition decoder_append :: "bytes \<Rightarrow> FrameDecoder \<Rightarrow> FrameDecoder" where
  "decoder_append data d = d\<lparr>dec_buffer := dec_buffer d @ data\<rparr>"

definition bufferedBytes :: "FrameDecoder \<Rightarrow> nat" where
  "bufferedBytes d = size_sub (length (dec_buffer d)) (dec_read_offset d)"

definition decoder_clear :: "FrameDecoder \<Rightarrow> FrameDecoder" where
  "decoder_clear d = d\<lparr>dec_buffer := [], dec_read_offset := 0\<rparr>"

definition decoder_compact :: "FrameDecoder \<Rightarrow> FrameDecoder" where
  "decoder_compact d =
     (if dec_read_offset d = 0 then d
      else if dec_read_offset d = length (dec_buffer d) then
        d\<lparr>dec_buffer := [], dec_read_offset := 0\<rparr>
      else if kCompactionThreshold \<le> dec_read_offset d
           \<and> length (dec_buffer d) div 2 \<le> dec_read_offset d then
        d\<lparr>dec_buffer := drop (dec_read_offset d) (dec_buffer d), dec_read_offset := 0\<rparr>
      else d)"

definition decodeNext :: "endian \<Rightarrow> FrameDecoder \<Rightarrow> FrameDecodeResult \<times> FrameDecoder" where
  "decodeNext e d =
     (if bufferedBytes d < kFrameHeaderSize then
        (\<lparr>dr_status = need_more_data, dr_payload = []\<rparr>, d)
      else
        let network_payload_size =
              u32_of_bytes e (bytes_at (dec_buffer d) (dec_read_offset d) kFrameHeaderSize);
            payload_size = ntohl e network_payload_size
        in if max_payload_size < payload_size then
             (\<lparr>dr_status = payload_too_large, dr_payload = []\<rparr>, d)
           else
             let complete_frame_size = kFrameHeaderSize + unat payload_size
             in if bufferedBytes d < complete_frame_size then
                  (\<lparr>dr_status = need_more_data, dr_payload = []\<rparr>, d)
                else
                  let payload = (if 0 < payload_size then
                        bytes_at (dec_buffer d) (dec_read_offset d + kFrameHeaderSize)
                          (unat payload_size)
                        else replicate (unat payload_size) 0);
                      d1 = d\<lparr>dec_read_offset := dec_read_offset d + complete_frame_size\<rparr>;
                      d2 = decoder_compact d1
                  in (\<lparr>dr_status = frame_ready, dr_payload = payload\<rparr>, d2))"

section \<open>Invariant and abstraction\<close>

definition decoder_live :: "FrameDecoder \<Rightarrow> bytes" where
  "decoder_live d = drop (dec_read_offset d) (dec_buffer d)"

definition decoder_wf :: "FrameDecoder \<Rightarrow> bool" where
  "decoder_wf d \<longleftrightarrow> dec_read_offset d \<le> length (dec_buffer d)
     \<and> (dec_read_offset d < kCompactionThreshold
        \<or> dec_read_offset d < length (dec_buffer d) div 2)"

lemmas decoder_defs = decoder_live_def decoder_wf_def bufferedBytes_def decoder_append_def
  decoder_clear_def decoder_compact_def kFrameHeaderSize_def kCompactionThreshold_def

text \<open>Inside \<open>decodeNext\<close> the offset may be anywhere in the buffer before compaction.\<close>

definition decoder_in_range :: "FrameDecoder \<Rightarrow> bool" where
  "decoder_in_range d \<longleftrightarrow> dec_read_offset d \<le> length (dec_buffer d)"

lemma decoder_wf_in_range: "decoder_wf d \<Longrightarrow> decoder_in_range d"
  by (simp add: decoder_wf_def decoder_in_range_def)

lemma decoder_compact_wf: "decoder_in_range d \<Longrightarrow> decoder_wf (decoder_compact d)"
  by (auto simp: decoder_in_range_def decoder_defs)

lemma decoder_compact_live: "decoder_in_range d \<Longrightarrow> decoder_live (decoder_compact d) = decoder_live d"
  by (auto simp: decoder_in_range_def decoder_defs)

lemma bufferedBytes_live: "decoder_in_range d \<Longrightarrow> bufferedBytes d = length (decoder_live d)"
  by (simp add: decoder_in_range_def decoder_defs)

interpretation dec: offset_buffer decoder_live decoder_wf bufferedBytes decoder_compact decoder_clear
  by unfold_locales (auto simp: bufferedBytes_live decoder_wf_in_range decoder_compact_wf
      decoder_compact_live, simp_all add: decoder_defs)

lemma new_decoder_wf [simp]: "decoder_wf new_decoder"
  by (simp add: new_decoder_def decoder_defs)

lemma new_decoder_live [simp]: "decoder_live new_decoder = []"
  by (simp add: new_decoder_def decoder_live_def)

lemma decoder_append_wf: "decoder_wf d \<Longrightarrow> decoder_wf (decoder_append data d)"
  by (auto simp: decoder_defs)

lemma decoder_append_live:
  "decoder_wf d \<Longrightarrow> decoder_live (decoder_append data d) = decoder_live d @ data"
  by (auto simp: decoder_defs)

section \<open>decodeNext implements next\_frame\<close>

lemma decodeNext_cases:
  assumes wf: "decoder_wf d"
  shows "decodeNext e d =
    (case next_frame (decoder_live d) of
       Incomplete \<Rightarrow> (\<lparr>dr_status = need_more_data, dr_payload = []\<rparr>, d)
     | Oversized \<Rightarrow> (\<lparr>dr_status = payload_too_large, dr_payload = []\<rparr>, d)
     | Frame p r \<Rightarrow> (\<lparr>dr_status = frame_ready, dr_payload = p\<rparr>,
         decoder_compact (d\<lparr>dec_read_offset := dec_read_offset d + 4 + length p\<rparr>)))"
proof -
  let ?s = "decoder_live d" and ?n = "be_word (take 4 (decoder_live d))"
  have sz: "bufferedBytes d = length ?s"
    using wf by (rule dec.size_live)
  have hdr: "bytes_at (dec_buffer d) (dec_read_offset d) 4 = take 4 ?s"
    by (simp add: bytes_at_def decoder_live_def)
  have pl: "bytes_at (dec_buffer d) (dec_read_offset d + 4) k = take k (drop 4 ?s)" for k
    by (simp add: bytes_at_def decoder_live_def add.commute)
  have zero: "0 < ?n \<or> unat ?n = 0" by (auto simp: word_neq_0_conv unat_eq_0)
  show ?thesis
    using zero by (auto simp: decodeNext_def next_frame_def Let_def sz hdr pl kFrameHeaderSize_def
        add.assoc)
qed

lemma decodeNext_frame_state:
  assumes wf: "decoder_wf d" and "next_frame (decoder_live d) = Frame p r"
  shows "decoder_wf (decoder_compact (d\<lparr>dec_read_offset := dec_read_offset d + 4 + length p\<rparr>))"
    and "decoder_live (decoder_compact (d\<lparr>dec_read_offset := dec_read_offset d + 4 + length p\<rparr>)) = r"
proof -
  let ?d = "d\<lparr>dec_read_offset := dec_read_offset d + 4 + length p\<rparr>"
  have s: "decoder_live d = encode_frame p @ r" using next_frame_sound [OF assms(2)] by simp
  then have len: "length (dec_buffer d) - dec_read_offset d = 4 + length p + length r"
    unfolding decoder_live_def by (metis length_append length_drop length_encode_frame)
  have "decoder_live ?d = drop (4 + length p) (decoder_live d)"
    by (simp add: decoder_live_def add.commute add.left_commute)
  then have live: "decoder_live ?d = r" using s by simp
  have range: "decoder_in_range ?d" using len by (simp add: decoder_in_range_def)
  show "decoder_wf (decoder_compact ?d)" using range by (rule decoder_compact_wf)
  show "decoder_live (decoder_compact ?d) = r"
    using decoder_compact_live [OF range] live by simp
qed

lemma decodeNext_wf:
  assumes wf: "decoder_wf d" and "decodeNext e d = (r, d')"
  shows "decoder_wf d'"
  using assms(2) wf decodeNext_frame_state(1) [OF wf]
  by (auto simp: decodeNext_cases [OF wf] split: next_frame_result.splits)

text \<open>The vector never holds more than twice the live bytes, up to the threshold.\<close>

lemma decoder_wf_memory:
  "decoder_wf d \<Longrightarrow> length (dec_buffer d) \<le> 4096 + 2 * bufferedBytes d"
  by (auto simp: decoder_defs)

text \<open>A frame that is ready makes the number of live bytes smaller, whatever the state.\<close>

lemma bufferedBytes_compact_le:
  "bufferedBytes (decoder_compact d) \<le> bufferedBytes d"
  by (simp add: decoder_compact_def bufferedBytes_def size_sub_ge_diff)

lemma decodeNext_decreases:
  assumes "decodeNext e d = (r, d')" and "dr_status r = frame_ready"
  shows "bufferedBytes d' < bufferedBytes d"
proof -
  define n where "n = 4 + unat (ntohl e (u32_of_bytes e (bytes_at (dec_buffer d) (dec_read_offset d) 4)))"
  have n: "4 \<le> n" "n \<le> bufferedBytes d"
    and d': "d' = decoder_compact (d\<lparr>dec_read_offset := dec_read_offset d + n\<rparr>)"
    using assms by (auto simp: decodeNext_def Let_def kFrameHeaderSize_def n_def split: if_splits)
  have "bufferedBytes (d\<lparr>dec_read_offset := dec_read_offset d + n\<rparr>) = bufferedBytes d - n"
    using n(2) by (simp add: bufferedBytes_def size_sub_advance)
  with n d' bufferedBytes_compact_le [of "d\<lparr>dec_read_offset := dec_read_offset d + n\<rparr>"]
  show ?thesis by simp
qed

section \<open>Properties\<close>

text \<open>C6: On a well-formed decoder \<open>decodeNext\<close> does what the wire format says about the live
  bytes, on hosts of either byte order: with an incomplete frame it asks for more and
  changes nothing, with an oversized announcement it reports \<open>payload_too_large\<close> and
  changes nothing, and otherwise it returns the payload of the first frame and leaves
  exactly the bytes behind that frame. The decoder stays well-formed.\<close>

theorem decodeNext_refines_next_frame:
  assumes "decoder_wf d"
  shows "\<exists>r d'. decodeNext e d = (r, d') \<and> decoder_wf d' \<and>
    (case next_frame (decoder_live d) of
       Incomplete \<Rightarrow> dr_status r = need_more_data \<and> dr_payload r = [] \<and> d' = d
     | Oversized \<Rightarrow> dr_status r = payload_too_large \<and> dr_payload r = [] \<and> d' = d
     | Frame p rest \<Rightarrow> dr_status r = frame_ready \<and> dr_payload r = p \<and> decoder_live d' = rest)"
  using assms decodeNext_cases [OF assms, of e] decodeNext_frame_state [OF assms]
  by (auto split: next_frame_result.split)

definition sample_decoder :: FrameDecoder where
  "sample_decoder = \<lparr>dec_buffer = encode_frame [7, 8] @ [0, 0], dec_read_offset = 0\<rparr>"

theorem decodeNext_refines_next_frame_witness:
  "decoder_wf sample_decoder \<and>
   (\<exists>r d'. decodeNext Little sample_decoder = (r, d') \<and> decoder_wf d'
     \<and> dr_status r = frame_ready \<and> dr_payload r = [7, 8] \<and> decoder_live d' = [0, 0])"
proof -
  have wf: "decoder_wf sample_decoder"
    by (simp add: decoder_defs sample_decoder_def)
  have nxt: "next_frame (decoder_live sample_decoder) = Frame [7, 8] [0, 0]"
    by (simp add: sample_decoder_def decoder_live_def next_frame_encode fits_frame_def)
  show ?thesis using decodeNext_refines_next_frame [OF wf, of Little] wf nxt by auto
qed

datatype decoder_call = Append bytes | DecodeNext | Clear

fun decoder_calls :: "endian \<Rightarrow> decoder_call list \<Rightarrow> FrameDecoder \<Rightarrow> FrameDecoder" where
  "decoder_calls e [] d = d"
| "decoder_calls e (Append data # cs) d = decoder_calls e cs (decoder_append data d)"
| "decoder_calls e (DecodeNext # cs) d = decoder_calls e cs (snd (decodeNext e d))"
| "decoder_calls e (Clear # cs) d = decoder_calls e cs (decoder_clear d)"

lemma decoder_calls_wf: "decoder_wf d \<Longrightarrow> decoder_wf (decoder_calls e cs d)"
proof (induction e cs d rule: decoder_calls.induct)
  case (3 e cs d)
  then show ?case using decodeNext_wf [of d e] by (cases "decodeNext e d") simp
qed (simp_all add: decoder_append_wf dec.wf_clear)

text \<open>C25: Whatever sequence of \<open>append\<close>, \<open>decodeNext\<close> and \<open>clear\<close> calls is made on a new
  decoder, its read offset stays within its buffer, so that the \<open>size_t\<close> subtraction in
  \<open>bufferedBytes\<close> never wraps around, and the buffer never holds more than 4096 bytes
  beyond twice the bytes that are still to be decoded.\<close>

theorem decoder_memory_bounded:
  "dec_read_offset (decoder_calls e cs new_decoder) \<le> length (dec_buffer (decoder_calls e cs new_decoder))
   \<and> bufferedBytes (decoder_calls e cs new_decoder)
     = length (dec_buffer (decoder_calls e cs new_decoder)) - dec_read_offset (decoder_calls e cs new_decoder)
   \<and> length (dec_buffer (decoder_calls e cs new_decoder))
     \<le> 4096 + 2 * bufferedBytes (decoder_calls e cs new_decoder)"
proof -
  have wf: "decoder_wf (decoder_calls e cs new_decoder)" by (simp add: decoder_calls_wf)
  then show ?thesis
    using decoder_wf_memory [OF wf] by (simp add: decoder_wf_def bufferedBytes_def)
qed

end
