(* ===== verification/Socket_Io.thy ===== *)
theory Socket_Io
  imports Sample_Kernel
begin

text \<open>
  Reliable socket I/O: \<open>include/netpulse/network/io.hpp\<close> and \<open>src/network/io.cpp\<close>.
  \<open>sendAll\<close> writes a whole block to a socket and \<open>receiveExact\<close> fills a whole block from
  one; both report how many bytes were transferred when they stop early.
\<close>

section \<open>Results\<close>

datatype IoStatus = io_completed | io_peer_closed | io_would_block | io_error

record IoResult =
  io_status :: IoStatus
  io_bytes_transferred :: nat
  io_error_number :: errno

definition IoResult_completed :: "IoResult \<Rightarrow> bool" where
  "IoResult_completed r \<longleftrightarrow> io_status r = io_completed"

section \<open>sendAll\<close>

text \<open>One iteration of the loop of \<open>sendAll\<close>, on \<open>total_sent\<close> and the world.\<close>

definition sendAll_body ::
  "'w os \<Rightarrow> fd \<Rightarrow> bytes \<Rightarrow> nat \<times> 'w \<Rightarrow> nat \<times> 'w + IoResult \<times> 'w" where
  "sendAll_body os fd data = (\<lambda>(total_sent, w).
     if total_sent < length data then
       (case sys_send os fd (drop total_sent data) MSG_NOSIGNAL w of
          (Ok sent, w') \<Rightarrow>
            if 0 < sent then Inl (total_sent + sent, w')
            else Inr (\<lparr>io_status = io_error, io_bytes_transferred = total_sent,
                       io_error_number = EPIPE\<rparr>, w')
        | (Fail error_number, w') \<Rightarrow>
            if error_number = EINTR then Inl (total_sent, w')
            else if error_number = EAGAIN \<or> error_number = EWOULDBLOCK then
              Inr (\<lparr>io_status = io_would_block, io_bytes_transferred = total_sent,
                     io_error_number = error_number\<rparr>, w')
            else
              Inr (\<lparr>io_status = io_error, io_bytes_transferred = total_sent,
                     io_error_number = error_number\<rparr>, w'))
     else
       Inr (\<lparr>io_status = io_completed, io_bytes_transferred = total_sent,
              io_error_number = 0\<rparr>, w))"

definition sendAll :: "'w os \<Rightarrow> fd \<Rightarrow> bytes \<Rightarrow> 'w \<Rightarrow> (IoResult \<times> 'w) option" where
  "sendAll os fd data w = loop (sendAll_body os fd data) (0, w)"

section \<open>receiveExact\<close>

text \<open>
  One iteration of the loop of \<open>receiveExact\<close>, on \<open>total_received\<close>, the caller's
  buffer and the world. The buffer is returned with the result, since the caller reads it.
\<close>

definition receiveExact_body ::
  "'w os \<Rightarrow> fd \<Rightarrow> nat \<times> bytes \<times> 'w \<Rightarrow> nat \<times> bytes \<times> 'w + IoResult \<times> bytes \<times> 'w" where
  "receiveExact_body os fd = (\<lambda>(total_received, buffer, w).
     if total_received < length buffer then
       (case sys_recv os fd (length buffer - total_received) 0 w of
          (Ok received, w') \<Rightarrow>
            if 0 < length received then
              Inl (total_received + length received, overwrite buffer total_received received, w')
            else Inr (\<lparr>io_status = io_peer_closed, io_bytes_transferred = total_received,
                       io_error_number = 0\<rparr>, buffer, w')
        | (Fail error_number, w') \<Rightarrow>
            if error_number = EINTR then Inl (total_received, buffer, w')
            else if error_number = EAGAIN \<or> error_number = EWOULDBLOCK then
              Inr (\<lparr>io_status = io_would_block, io_bytes_transferred = total_received,
                     io_error_number = error_number\<rparr>, buffer, w')
            else
              Inr (\<lparr>io_status = io_error, io_bytes_transferred = total_received,
                     io_error_number = error_number\<rparr>, buffer, w'))
     else
       Inr (\<lparr>io_status = io_completed, io_bytes_transferred = total_received,
              io_error_number = 0\<rparr>, buffer, w))"

definition receiveExact ::
  "'w os \<Rightarrow> fd \<Rightarrow> bytes \<Rightarrow> 'w \<Rightarrow> (IoResult \<times> bytes \<times> 'w) option" where
  "receiveExact os fd buffer w = loop (receiveExact_body os fd) (0, buffer, w)"

section \<open>What sendAll has transmitted\<close>

lemma sendAll_body_continue [loop_bodies]:
  "sendAll_body os fd data (k, w) = Inl (k', w') \<longleftrightarrow>
     k < length data \<and>
     ((\<exists>n. sys_send os fd (drop k data) MSG_NOSIGNAL w = (Ok n, w') \<and> 0 < n \<and> k' = k + n)
      \<or> (sys_send os fd (drop k data) MSG_NOSIGNAL w = (Fail EINTR, w') \<and> k' = k))"
  by (auto simp: sendAll_body_def split: prod.splits sys_ret.splits if_splits)

text \<open>
  The invariant of the loop: what the socket has transmitted since the call is the
  first \<open>total_sent\<close> bytes of the data.
\<close>

definition sent_prefix :: "(fd \<Rightarrow> 'w \<Rightarrow> bytes) \<Rightarrow> fd \<Rightarrow> bytes \<Rightarrow> 'w \<Rightarrow> nat \<Rightarrow> 'w \<Rightarrow> bool" where
  "sent_prefix out fd data w0 k w \<longleftrightarrow>
     k \<le> length data \<and> out fd w = out fd w0 @ take k data
     \<and> (\<forall>g. g \<noteq> fd \<longrightarrow> out g w = out g w0)"

lemma sent_prefix_start: "sent_prefix out fd data w 0 w"
  by (simp add: sent_prefix_def)

lemma sent_prefix_send:
  assumes "send_contract os out" and "sent_prefix out fd data w0 k w"
    and "sys_send os fd (drop k data) flags w = (Ok n, w')"
  shows "sent_prefix out fd data w0 (k + n) w'"
  using assms(2) send_contractD(1-3) [OF assms(1,3)]
  by (auto simp: sent_prefix_def take_add)

lemma sent_prefix_nothing:
  assumes "send_contract os out" and "sent_prefix out fd data w0 k w"
    and "sys_send os fd (drop k data) flags w = (Ok 0, w')"
  shows "sent_prefix out fd data w0 k w'"
  using sent_prefix_send [OF assms] by simp

lemma sent_prefix_fail:
  assumes "send_contract os out" and "sent_prefix out fd data w0 k w"
    and "sys_send os fd (drop k data) flags w = (Fail e, w')"
  shows "sent_prefix out fd data w0 k w'"
  using assms(2) send_contractD(4) [OF assms(1,3)] by (auto simp: sent_prefix_def)

lemma sendAll_post:
  assumes os: "send_contract os out" and ret: "sendAll os fd data w = Some (r, w')"
  shows "sent_prefix out fd data w (io_bytes_transferred r) w'
    \<and> (io_status r = io_completed \<longleftrightarrow> io_bytes_transferred r = length data)
    \<and> io_status r \<noteq> io_peer_closed
    \<and> (io_status r = io_completed \<longrightarrow> io_error_number r = 0)"
proof -
  let ?Q = "\<lambda>(r, w'). sent_prefix out fd data w (io_bytes_transferred r) w'
    \<and> (io_status r = io_completed \<longleftrightarrow> io_bytes_transferred r = length data)
    \<and> io_status r \<noteq> io_peer_closed \<and> (io_status r = io_completed \<longrightarrow> io_error_number r = 0)"
  have "?Q (r, w')"
  proof (rule loop_rule [OF ret [unfolded sendAll_def],
        where I = "\<lambda>(k, v). sent_prefix out fd data w k v"])
    show "case (0, w) of (k, v) \<Rightarrow> sent_prefix out fd data w k v"
      by (simp add: sent_prefix_start)
  next
    fix s s' assume "case s of (k, v) \<Rightarrow> sent_prefix out fd data w k v"
      and "sendAll_body os fd data s = Inl s'"
    then show "case s' of (k, v) \<Rightarrow> sent_prefix out fd data w k v"
      by (cases s; cases s')
        (auto simp: sendAll_body_continue intro: sent_prefix_send [OF os] sent_prefix_fail [OF os])
  next
    fix s q assume inv: "case s of (k, v) \<Rightarrow> sent_prefix out fd data w k v"
      and leave: "sendAll_body os fd data s = Inr q"
    obtain k v where s: "s = (k, v)" by fastforce
    with inv have k: "sent_prefix out fd data w k v" by simp
    then have "k \<le> length data" by (simp add: sent_prefix_def)
    with leave s k show "?Q q"
      by (auto simp: sendAll_body_def split: prod.splits sys_ret.splits if_splits
          intro: sent_prefix_nothing [OF os] sent_prefix_fail [OF os])
  qed
  then show ?thesis by simp
qed

lemma sendAll_returns:
  assumes os: "send_interrupts_end os m" and len: "send_contract os out"
  shows "\<exists>r w'. sendAll os fd data w = Some (r, w')"
proof -
  have "\<exists>q. loop (sendAll_body os fd data) (0, w) = Some q"
  proof (rule loop_terminates [where I = "\<lambda>_. True"
        and R = "measures [\<lambda>(k, v). length data - k, \<lambda>(k, v). m v]"])
    fix s s' assume "sendAll_body os fd data s = Inl s'"
    then show "True \<and> (s', s) \<in> measures [\<lambda>(k, v). length data - k, \<lambda>(k, v). m v]"
      by (cases s; cases s') (auto simp: sendAll_body_continue dest: interrupts_endD(1) [OF os])
  qed simp_all
  then show ?thesis by (auto simp: sendAll_def)
qed

lemma sendAll_empty:
  "sendAll os fd [] w =
     Some (\<lparr>io_status = io_completed, io_bytes_transferred = 0, io_error_number = 0\<rparr>, w)"
  by (simp add: sendAll_def loop_leave sendAll_body_def)

text \<open>A socket that takes everything at once.\<close>

lemma sendAll_at_once:
  assumes "sys_send os fd data MSG_NOSIGNAL w = (Ok (length data), w')" and "data \<noteq> []"
  shows "sendAll os fd data w =
    Some (\<lparr>io_status = io_completed, io_bytes_transferred = length data, io_error_number = 0\<rparr>, w')"
proof -
  have "sendAll_body os fd data (0, w) = Inl (length data, w')"
    using assms by (simp add: sendAll_body_def)
  from loop_continue [of "sendAll_body os fd data", OF this] show ?thesis
    by (simp add: sendAll_def loop_leave sendAll_body_def)
qed

section \<open>What receiveExact has stored\<close>

lemma receiveExact_body_continue [loop_bodies]:
  "receiveExact_body os fd (k, b, w) = Inl (k', b', w') \<longleftrightarrow>
     k < length b \<and>
     ((\<exists>bs. sys_recv os fd (length b - k) 0 w = (Ok bs, w') \<and> bs \<noteq> []
          \<and> k' = k + length bs \<and> b' = overwrite b k bs)
      \<or> (sys_recv os fd (length b - k) 0 w = (Fail EINTR, w') \<and> k' = k \<and> b' = b))"
  by (auto simp: receiveExact_body_def split: prod.splits sys_ret.splits if_splits)

text \<open>
  The invariant: the first \<open>k\<close> bytes of the buffer are what was received since the
  call, the rest of the buffer is as it was.
\<close>

definition filled_prefix ::
  "(fd \<Rightarrow> 'w \<Rightarrow> bytes) \<Rightarrow> fd \<Rightarrow> bytes \<Rightarrow> 'w \<Rightarrow> nat \<Rightarrow> bytes \<Rightarrow> 'w \<Rightarrow> bool" where
  "filled_prefix inp fd b0 w0 k b w \<longleftrightarrow>
     k \<le> length b0 \<and> length b = length b0 \<and> drop k b = drop k b0
     \<and> inp fd w = inp fd w0 @ take k b"

lemma filled_prefix_start: "filled_prefix inp fd b w 0 b w"
  by (simp add: filled_prefix_def)

lemma filled_prefix_recv:
  assumes os: "recv_contract os inp" and inv: "filled_prefix inp fd b0 w0 k b w"
    and k: "k < length b" and ok: "sys_recv os fd (length b - k) flags w = (Ok bs, w')"
  shows "filled_prefix inp fd b0 w0 (k + length bs) (overwrite b k bs) w'"
proof -
  have fits: "k + length bs \<le> length b"
    using recv_contractD(1) [OF os ok] k by simp
  have "drop (length bs) (drop k b) = drop (length bs) (drop k b0)"
    using inv by (simp add: filled_prefix_def)
  with fits have "drop (k + length bs) (overwrite b k bs) = drop (k + length bs) b0"
    by (simp add: drop_overwrite add.commute)
  then show ?thesis
    using inv fits recv_contractD(2) [OF os ok]
    by (simp add: filled_prefix_def take_overwrite)
qed

lemma filled_prefix_fail:
  assumes "recv_contract os inp" and "filled_prefix inp fd b0 w0 k b w"
    and "sys_recv os fd n flags w = (Fail e, w')"
  shows "filled_prefix inp fd b0 w0 k b w'"
  using assms(2) recv_contractD(3) [OF assms(1,3)] by (auto simp: filled_prefix_def)

lemma filled_prefix_eof:
  assumes "recv_contract os inp" and "filled_prefix inp fd b0 w0 k b w"
    and "sys_recv os fd n flags w = (Ok [], w')"
  shows "filled_prefix inp fd b0 w0 k b w'"
  using assms(2) recv_contractD(2) [OF assms(1,3)] by (auto simp: filled_prefix_def)

lemma receiveExact_post:
  assumes os: "recv_contract os inp" and ret: "receiveExact os fd b w = Some (r, b', w')"
  shows "filled_prefix inp fd b w (io_bytes_transferred r) b' w'
    \<and> (io_status r = io_completed \<longleftrightarrow> io_bytes_transferred r = length b)
    \<and> (io_status r = io_completed \<or> io_status r = io_peer_closed \<longrightarrow> io_error_number r = 0)"
proof -
  let ?Q = "\<lambda>(r, b', w'). filled_prefix inp fd b w (io_bytes_transferred r) b' w'
    \<and> (io_status r = io_completed \<longleftrightarrow> io_bytes_transferred r = length b)
    \<and> (io_status r = io_completed \<or> io_status r = io_peer_closed \<longrightarrow> io_error_number r = 0)"
  let ?I = "\<lambda>(k, c, v). filled_prefix inp fd b w k c v"
  have "?Q (r, b', w')"
  proof (rule loop_rule [OF ret [unfolded receiveExact_def], where I = ?I])
    show "?I (0, b, w)" by (simp add: filled_prefix_start)
  next
    fix s s' assume "?I s" and "receiveExact_body os fd s = Inl s'"
    then show "?I s'"
      by (cases s; cases s') (auto simp: receiveExact_body_continue
          intro: filled_prefix_recv [OF os] filled_prefix_fail [OF os])
  next
    fix s q assume inv: "?I s" and leave: "receiveExact_body os fd s = Inr q"
    obtain k c v where s: "s = (k, c, v)" by (cases s) auto
    with inv have k: "filled_prefix inp fd b w k c v" by simp
    then have "length c = length b" "k \<le> length b" by (simp_all add: filled_prefix_def)
    with leave s k show "?Q q"
      by (auto simp: receiveExact_body_def split: prod.splits sys_ret.splits if_splits
          intro: filled_prefix_eof [OF os] filled_prefix_fail [OF os])
  qed
  then show ?thesis by simp
qed

lemma receiveExact_returns:
  assumes os: "recv_interrupts_end os m" and len: "recv_contract os inp"
  shows "\<exists>r b' w'. receiveExact os fd b w = Some (r, b', w')"
proof -
  let ?R = "measures [\<lambda>(k, c, v). length c - k, \<lambda>(k, c, v). m v]"
  have "\<exists>q. loop (receiveExact_body os fd) (0, b, w) = Some q"
  proof (rule loop_terminates [where I = "\<lambda>_. True" and R = ?R])
    fix s s' assume step: "receiveExact_body os fd s = Inl s'"
    have fits: "a + length bs \<le> length c"
      if "sys_recv os fd (length c - a) 0 v = (Ok bs, v')" "a < length c" for a bs c v v'
      using recv_contractD(1) [OF len that(1)] that(2) by simp
    from step show "True \<and> (s', s) \<in> ?R"
      by (cases s; cases s') (auto simp: receiveExact_body_continue fits diff_less_mono2
          dest: interrupts_endD(2) [OF os])
  qed simp_all
  then show ?thesis by (auto simp: receiveExact_def)
qed

lemma receiveExact_at_once:
  assumes "sys_recv os fd (length b) 0 w = (Ok bs, w')" and "length bs = length b" and "b \<noteq> []"
  shows "receiveExact os fd b w =
    Some (\<lparr>io_status = io_completed, io_bytes_transferred = length b, io_error_number = 0\<rparr>, bs, w')"
proof -
  have "receiveExact_body os fd (0, b, w) = Inl (length b, bs, w')"
    using assms by (auto simp: receiveExact_body_def overwrite_def)
  from loop_continue [of "receiveExact_body os fd", OF this] assms(2) show ?thesis
    by (simp add: receiveExact_def loop_leave receiveExact_body_def)
qed

section \<open>Properties\<close>

text \<open>C19: For every socket whose send(2) keeps its contract and is interrupted finitely
  often, \<open>sendAll\<close> returns; \<open>bytes_transferred\<close> counts exactly the bytes that went out,
  these are the first bytes of the data in order, no other socket is written to, and the
  status is \<open>completed\<close> if and only if all of the data went out.\<close>

theorem sendAll_transmits:
  assumes "send_contract os out" and "send_interrupts_end os m"
  shows "\<exists>r w'. sendAll os fd data w = Some (r, w')
    \<and> io_bytes_transferred r \<le> length data
    \<and> out fd w' = out fd w @ take (io_bytes_transferred r) data
    \<and> (\<forall>g. g = fd \<or> out g w' = out g w)
    \<and> (IoResult_completed r \<longleftrightarrow> io_bytes_transferred r = length data)"
proof -
  obtain r w' where ret: "sendAll os fd data w = Some (r, w')"
    using sendAll_returns [OF assms(2,1)] by blast
  from sendAll_post [OF assms(1) ret] ret show ?thesis
    by (auto simp: sent_prefix_def IoResult_completed_def)
qed

theorem sendAll_transmits_witness:
  "send_contract sample_os sample_out \<and> send_interrupts_end sample_os k_intr \<and>
   (\<exists>r w'. sendAll sample_os 7 [1, 2, 3, 4, 5] sample_world = Some (r, w')
    \<and> io_bytes_transferred r \<le> 5
    \<and> sample_out 7 w' = take (io_bytes_transferred r) [1, 2, 3, 4, 5])"
  using sendAll_transmits [OF sample_send_contract sample_send_interrupts,
      of 7 "[1, 2, 3, 4, 5]" sample_world] sample_contracts
  by (auto simp: sample_world_def)

text \<open>C20: Likewise \<open>receiveExact\<close> returns, \<open>bytes_transferred\<close> counts exactly the bytes taken
  from the stream, these are stored in order at the start of the buffer, the rest of the
  buffer is untouched, and the status is \<open>completed\<close> if and only if the buffer is full.\<close>

theorem receiveExact_fills:
  assumes "recv_contract os inp" and "recv_interrupts_end os m"
  shows "\<exists>r b' w'. receiveExact os fd b w = Some (r, b', w')
    \<and> io_bytes_transferred r \<le> length b \<and> length b' = length b
    \<and> inp fd w' = inp fd w @ take (io_bytes_transferred r) b'
    \<and> drop (io_bytes_transferred r) b' = drop (io_bytes_transferred r) b
    \<and> (IoResult_completed r \<longleftrightarrow> io_bytes_transferred r = length b)"
proof -
  obtain r b' w' where ret: "receiveExact os fd b w = Some (r, b', w')"
    using receiveExact_returns [OF assms(2,1)] by blast
  from receiveExact_post [OF assms(1) ret] ret show ?thesis
    by (auto simp: filled_prefix_def IoResult_completed_def)
qed

theorem receiveExact_fills_witness:
  "recv_contract sample_os sample_in \<and> recv_interrupts_end sample_os k_intr \<and>
   (\<exists>r b' w'. receiveExact sample_os 7 [0, 0] (sample_world\<lparr>k_avail := (\<lambda>_. [9, 8, 7])\<rparr>) = Some (r, b', w')
    \<and> length b' = 2 \<and> sample_in 7 w' = take (io_bytes_transferred r) b')"
  using receiveExact_fills [OF sample_recv_contract sample_recv_interrupts,
      of 7 "[0, 0]" "sample_world\<lparr>k_avail := (\<lambda>_. [9, 8, 7])\<rparr>"] sample_contracts
  by (auto simp: sample_world_def)









end
