(* ===== verification/Frame_Write_Buffer.thy ===== *)
theory Frame_Write_Buffer
  imports Wire_Format Offset_Buffer Socket_Io
begin

text \<open>
  The send buffer of a connection: \<open>include/netpulse/protocol/frame_write_buffer.hpp\<close> and
  \<open>src/protocol/frame_write_buffer.cpp\<close>. Frames are encoded into a byte vector; \<open>flush\<close>
  hands as much of it to the socket as the socket takes and remembers how far it came.
  \<open>flush\<close> is proved equivalent to \<open>sendAll\<close> on the live bytes, so that its guarantees
  come from that component.
\<close>

section \<open>State and operations\<close>

datatype FrameQueueStatus = fq_queued | fq_payload_too_large

datatype FrameFlushStatus = ff_drained | ff_would_block | ff_error

record FrameFlushResult =
  ff_status :: FrameFlushStatus
  ff_bytes_transferred :: nat
  ff_error_number :: errno

definition FrameFlushResult_drained :: "FrameFlushResult \<Rightarrow> bool" where
  "FrameFlushResult_drained r \<longleftrightarrow> ff_status r = ff_drained"

record FrameWriteBuffer =
  fw_buffer :: bytes
  fw_write_offset :: nat

definition new_write_buffer :: FrameWriteBuffer where
  "new_write_buffer = \<lparr>fw_buffer = [], fw_write_offset = 0\<rparr>"

definition fw_clear :: "FrameWriteBuffer \<Rightarrow> FrameWriteBuffer" where
  "fw_clear b = b\<lparr>fw_buffer := [], fw_write_offset := 0\<rparr>"

definition pendingBytes :: "FrameWriteBuffer \<Rightarrow> nat" where
  "pendingBytes b = size_sub (length (fw_buffer b)) (fw_write_offset b)"

definition fw_empty :: "FrameWriteBuffer \<Rightarrow> bool" where
  "fw_empty b \<longleftrightarrow> pendingBytes b = 0"

definition fw_compact :: "FrameWriteBuffer \<Rightarrow> FrameWriteBuffer" where
  "fw_compact b =
     (if fw_write_offset b = 0 then b
      else if fw_write_offset b = length (fw_buffer b) then fw_clear b
      else b\<lparr>fw_buffer := drop (fw_write_offset b) (fw_buffer b), fw_write_offset := 0\<rparr>)"

definition enqueue ::
  "endian \<Rightarrow> bytes \<Rightarrow> FrameWriteBuffer \<Rightarrow> FrameQueueStatus \<times> FrameWriteBuffer" where
  "enqueue e payload b =
     (if unat max_payload_size < length payload then (fq_payload_too_large, b)
      else
        let b1 = fw_compact b;
            payload_size = (of_nat (length payload) :: u32);
            network_size = htonl e payload_size;
            old_size = length (fw_buffer b1);
            frame_size = 4 + length payload;
            resized = fw_buffer b1 @ replicate frame_size 0;
            with_header = overwrite resized old_size (bytes_of_u32 e network_size);
            with_payload = (if payload \<noteq> [] then overwrite with_header (old_size + 4) payload
              else with_header)
        in (fq_queued, b1\<lparr>fw_buffer := with_payload\<rparr>))"

text \<open>One iteration of the loop of \<open>flush\<close>, on the object, \<open>total_sent\<close> and the world.\<close>

definition flush_body ::
  "'w os \<Rightarrow> fd \<Rightarrow> FrameWriteBuffer \<times> nat \<times> 'w
     \<Rightarrow> FrameWriteBuffer \<times> nat \<times> 'w + FrameFlushResult \<times> FrameWriteBuffer \<times> 'w" where
  "flush_body os fd = (\<lambda>(b, total_sent, w).
     if fw_write_offset b < length (fw_buffer b) then
       (case sys_send os fd (drop (fw_write_offset b) (fw_buffer b)) MSG_NOSIGNAL w of
          (Ok sent, w') \<Rightarrow>
            if 0 < sent then
              Inl (b\<lparr>fw_write_offset := fw_write_offset b + sent\<rparr>, total_sent + sent, w')
            else Inr (\<lparr>ff_status = ff_error, ff_bytes_transferred = total_sent,
                       ff_error_number = EPIPE\<rparr>, b, w')
        | (Fail error_number, w') \<Rightarrow>
            if error_number = EINTR then Inl (b, total_sent, w')
            else if error_number = EAGAIN \<or> error_number = EWOULDBLOCK then
              Inr (\<lparr>ff_status = ff_would_block, ff_bytes_transferred = total_sent,
                     ff_error_number = error_number\<rparr>, b, w')
            else
              Inr (\<lparr>ff_status = ff_error, ff_bytes_transferred = total_sent,
                     ff_error_number = error_number\<rparr>, b, w'))
     else
       Inr (\<lparr>ff_status = ff_drained, ff_bytes_transferred = total_sent,
              ff_error_number = 0\<rparr>, fw_clear b, w))"

definition flush ::
  "'w os \<Rightarrow> fd \<Rightarrow> FrameWriteBuffer \<Rightarrow> 'w \<Rightarrow> (FrameFlushResult \<times> FrameWriteBuffer \<times> 'w) option" where
  "flush os fd b w = loop (flush_body os fd) (b, 0, w)"

section \<open>Invariant and abstraction\<close>

definition fw_live :: "FrameWriteBuffer \<Rightarrow> bytes" where
  "fw_live b = drop (fw_write_offset b) (fw_buffer b)"

definition fw_wf :: "FrameWriteBuffer \<Rightarrow> bool" where
  "fw_wf b \<longleftrightarrow> fw_write_offset b \<le> length (fw_buffer b)"

lemmas write_buffer_defs = fw_live_def fw_wf_def pendingBytes_def fw_clear_def fw_compact_def

interpretation fwb: offset_buffer fw_live fw_wf pendingBytes fw_compact fw_clear
  by unfold_locales (auto simp: write_buffer_defs)

lemma new_write_buffer_wf [simp]: "fw_wf new_write_buffer"
  by (simp add: new_write_buffer_def fw_wf_def)

lemma new_write_buffer_live [simp]: "fw_live new_write_buffer = []"
  by (simp add: new_write_buffer_def fw_live_def)

lemma fw_empty_live: "fw_wf b \<Longrightarrow> fw_empty b \<longleftrightarrow> fw_live b = []"
  by (simp add: fw_empty_def fwb.size_zero_iff)

section \<open>enqueue appends one encoded frame\<close>

lemma enqueue_too_large: "\<not> fits_frame p \<Longrightarrow> enqueue e p b = (fq_payload_too_large, b)"
  by (simp add: enqueue_def fits_frame_def)

lemma fw_compact_offset: "fw_wf b \<Longrightarrow> fw_write_offset (fw_compact b) = 0"
  by (simp add: write_buffer_defs)

lemma enqueue_buffer:
  assumes "fits_frame p"
  shows "enqueue e p b =
    (fq_queued, (fw_compact b)\<lparr>fw_buffer := fw_buffer (fw_compact b) @ encode_frame p\<rparr>)"
proof -
  let ?old = "fw_buffer (fw_compact b)" and ?h = "be_bytes (of_nat (length p))"
  have 1: "overwrite (?old @ replicate (4 + length p) 0) (length ?old) ?h
      = ?old @ ?h @ replicate (length p) 0"
    using overwrite_resized [of ?old ?h p 0] by simp
  have 2: "overwrite (?old @ ?h @ replicate (length p) 0) (length ?old + 4) p = ?old @ ?h @ p"
    using overwrite_tail [of p "length p" "?old @ ?h" 0] by simp
  have 3: "overwrite (?old @ replicate 4 0) (length ?old) (be_bytes 0) = ?old @ be_bytes 0"
    by (rule overwrite_tail) simp
  show ?thesis
    using assms by (simp add: enqueue_def fits_frame_def Let_def 1 2 3 encode_frame_def)
qed

lemma enqueue_queued:
  assumes "fits_frame p" and wf: "fw_wf b"
  shows "fst (enqueue e p b) = fq_queued" and "fw_wf (snd (enqueue e p b))"
    and "fw_live (snd (enqueue e p b)) = fw_live b @ encode_frame p"
proof -
  have "fw_live (fw_compact b) = fw_live b" using wf by (rule fwb.live_compact)
  with fw_compact_offset [OF wf] show "fst (enqueue e p b) = fq_queued"
    and "fw_wf (snd (enqueue e p b))"
    and "fw_live (snd (enqueue e p b)) = fw_live b @ encode_frame p"
    by (simp_all add: enqueue_buffer [OF assms(1)] fw_wf_def fw_live_def)
qed

lemma enqueue_wf: "fw_wf b \<Longrightarrow> fw_wf (snd (enqueue e p b))"
  by (cases "fits_frame p") (auto simp: enqueue_queued(2) enqueue_too_large)

section \<open>flush is sendAll on the live bytes\<close>

fun flush_status_of :: "IoStatus \<Rightarrow> FrameFlushStatus" where
  "flush_status_of io_completed = ff_drained"
| "flush_status_of io_would_block = ff_would_block"
| "flush_status_of io_error = ff_error"
| "flush_status_of io_peer_closed = ff_error"

definition flush_outcome ::
  "FrameWriteBuffer \<Rightarrow> IoResult \<times> 'w \<Rightarrow> FrameFlushResult \<times> FrameWriteBuffer \<times> 'w" where
  "flush_outcome b = (\<lambda>(r, w').
     (\<lparr>ff_status = flush_status_of (io_status r),
       ff_bytes_transferred = io_bytes_transferred r,
       ff_error_number = io_error_number r\<rparr>,
      if io_status r = io_completed then fw_clear b
      else b\<lparr>fw_write_offset := fw_write_offset b + io_bytes_transferred r\<rparr>, w'))"

text \<open>One iteration of \<open>flush\<close> is one iteration of \<open>sendAll\<close>, with the offset moved along.\<close>

lemma flush_body_as_sendAll_body:
  "flush_body os fd (b\<lparr>fw_write_offset := fw_write_offset b + k\<rparr>, k, w) =
     (case sendAll_body os fd (fw_live b) (k, w) of
        Inl (k', w') \<Rightarrow> Inl (b\<lparr>fw_write_offset := fw_write_offset b + k'\<rparr>, k', w')
      | Inr q \<Rightarrow> Inr (flush_outcome b q))"
proof (cases "fw_write_offset b + k < length (fw_buffer b)")
  case True
  then have "k < length (fw_live b)" by (simp add: fw_live_def)
  moreover have "drop k (fw_live b) = drop (fw_write_offset b + k) (fw_buffer b)"
    by (simp add: fw_live_def add.commute)
  ultimately show ?thesis
    using True by (simp add: sendAll_body_def flush_body_def flush_outcome_def add.assoc
        split: prod.split sys_ret.split)
next
  case False
  then have "\<not> k < length (fw_live b)" by (simp add: fw_live_def)
  with False show ?thesis
    by (simp add: sendAll_body_def flush_body_def flush_outcome_def fw_clear_def)
qed

lemma flush_as_sendAll: "flush os fd b w = map_option (flush_outcome b) (sendAll os fd (fw_live b) w)"
  unfolding flush_def sendAll_def
  by (rule loop_simulation [where A = "\<lambda>(k, v) t.
        t = (b\<lparr>fw_write_offset := fw_write_offset b + k\<rparr>, k, v)"])
    (auto simp: flush_body_as_sendAll_body)

lemma flush_post:
  assumes os: "send_contract os out" and wf: "fw_wf b"
    and ret: "flush os fd b w = Some (r, b', w')"
  shows "fw_wf b'"
    and "sent_prefix out fd (fw_live b) w (ff_bytes_transferred r) w'"
    and "fw_live b' = drop (ff_bytes_transferred r) (fw_live b)"
    and "ff_status r = ff_drained \<longleftrightarrow> fw_live b' = []"
proof -
  from ret obtain q where q: "sendAll os fd (fw_live b) w = Some (q, w')"
    and out: "flush_outcome b (q, w') = (r, b', w')"
    by (auto simp: flush_as_sendAll flush_outcome_def)
  note post = sendAll_post [OF os q]
  then have k: "io_bytes_transferred q \<le> length (fw_live b)" by (simp add: sent_prefix_def)
  have r: "ff_bytes_transferred r = io_bytes_transferred q"
    "ff_status r = flush_status_of (io_status q)"
    and b': "b' = (if io_status q = io_completed then fw_clear b
      else b\<lparr>fw_write_offset := fw_write_offset b + io_bytes_transferred q\<rparr>)"
    using out by (auto simp: flush_outcome_def)
  show "sent_prefix out fd (fw_live b) w (ff_bytes_transferred r) w'" using post r by simp
  show wf': "fw_wf b'" using b' k wf by (auto simp: fw_wf_def fw_live_def fw_clear_def)
  show live: "fw_live b' = drop (ff_bytes_transferred r) (fw_live b)"
    using b' post r by (auto simp: fw_live_def fw_clear_def add.commute)
  show "ff_status r = ff_drained \<longleftrightarrow> fw_live b' = []"
    using post live r k by (cases "io_status q") auto
qed

lemma flush_returns:
  assumes "send_contract os out" and "send_interrupts_end os m"
  shows "\<exists>r b' w'. flush os fd b w = Some (r, b', w')"
  using sendAll_returns [OF assms(2,1), of fd "fw_live b" w]
  by (auto simp: flush_as_sendAll flush_outcome_def)

section \<open>Properties\<close>

text \<open>C17: \<open>flush\<close> is \<open>sendAll\<close> on the bytes that are still to be sent: it makes the same
  system calls and returns in the same cases; it reports \<open>drained\<close> where \<open>sendAll\<close>
  completes, with the buffer cleared, and otherwise the same failure with the write
  offset advanced by the bytes transferred.\<close>

theorem flush_equals_sendAll:
  "flush os fd b w =
     (case sendAll os fd (drop (fw_write_offset b) (fw_buffer b)) w of
        None \<Rightarrow> None
      | Some (r, w') \<Rightarrow>
          Some (\<lparr>ff_status = flush_status_of (io_status r),
                 ff_bytes_transferred = io_bytes_transferred r,
                 ff_error_number = io_error_number r\<rparr>,
                if IoResult_completed r then fw_clear b
                else b\<lparr>fw_write_offset := fw_write_offset b + io_bytes_transferred r\<rparr>, w'))"
  using flush_as_sendAll [of os fd b w]
  by (auto simp: flush_outcome_def fw_live_def IoResult_completed_def split: option.split)

text \<open>The calls a connection makes on its write buffer, and the payloads they accept.\<close>

datatype write_call = Enqueue bytes | Flush

fun write_calls ::
  "endian \<Rightarrow> 'w os \<Rightarrow> fd \<Rightarrow> write_call list \<Rightarrow> FrameWriteBuffer \<Rightarrow> 'w \<Rightarrow>
     (bytes list \<times> FrameWriteBuffer \<times> 'w) option" where
  "write_calls e os fd [] b w = Some ([], b, w)"
| "write_calls e os fd (Enqueue p # cs) b w =
     (case enqueue e p b of (st, b1) \<Rightarrow>
        map_option (\<lambda>(ps, r). (if st = fq_queued then p # ps else ps, r)) (write_calls e os fd cs b1 w))"
| "write_calls e os fd (Flush # cs) b w =
     (case flush os fd b w of None \<Rightarrow> None
      | Some (r, b1, w1) \<Rightarrow> write_calls e os fd cs b1 w1)"

lemma write_calls_stream:
  assumes os: "send_contract os out"
  shows "fw_wf b \<Longrightarrow> write_calls e os fd cs b w = Some (ps, b', w') \<Longrightarrow>
    fw_wf b' \<and> out fd w' @ fw_live b' = out fd w @ fw_live b @ concat (map encode_frame ps)"
proof (induction cs arbitrary: b w ps)
  case Nil
  then show ?case by simp
next
  case (Cons c cs)
  show ?case
  proof (cases c)
    case (Enqueue p)
    obtain st b1 where enq: "enqueue e p b = (st, b1)" by fastforce
    with Cons.prems(2) Enqueue obtain qs where rest: "write_calls e os fd cs b1 w = Some (qs, b', w')"
      and ps: "ps = (if st = fq_queued then p # qs else qs)" by auto
    have b1: "fw_wf b1" "fw_live b1 @ concat (map encode_frame qs) = fw_live b @ concat (map encode_frame ps)"
      using enq ps Cons.prems(1) enqueue_queued [of p b e] enqueue_too_large [of p e b]
      by (cases "fits_frame p"; auto)+
    from Cons.IH [OF b1(1) rest] b1(2) show ?thesis by simp
  next
    case Flush
    with Cons.prems obtain r b1 w1 where f: "flush os fd b w = Some (r, b1, w1)"
      and rest: "write_calls e os fd cs b1 w1 = Some (ps, b', w')"
      by (auto split: option.splits)
    note post = flush_post [OF os Cons.prems(1) f]
    have "out fd w1 @ fw_live b1 = out fd w @ fw_live b"
      using post(2,3) by (simp add: sent_prefix_def)
    with Cons.IH [OF post(1) rest] show ?thesis by simp
  qed
qed

lemma write_calls_return:
  assumes "send_contract os out" and "send_interrupts_end os m"
  shows "\<exists>ps b' w'. write_calls e os fd cs b w = Some (ps, b', w')"
proof (induction cs arbitrary: b w)
  case Nil
  then show ?case by simp
next
  case (Cons c cs)
  show ?case
  proof (cases c)
    case (Enqueue p)
    obtain st b1 where "enqueue e p b = (st, b1)" by fastforce
    with Cons [of b1 w] Enqueue show ?thesis by auto
  next
    case Flush
    obtain r b1 w1 where "flush os fd b w = Some (r, b1, w1)"
      using flush_returns [OF assms] by blast
    with Cons [of b1 w1] Flush show ?thesis by simp
  qed
qed

text \<open>C18: For every sequence of \<open>enqueue\<close> and \<open>flush\<close> calls on a new write buffer, what the
  socket has transmitted followed by what is still buffered is the concatenation of the
  encodings of the accepted payloads, in the order in which they were queued: no byte is
  lost, duplicated or reordered, however the socket splits the transfers.\<close>

theorem write_buffer_preserves_stream:
  assumes "send_contract os out" and "send_interrupts_end os m"
  shows "\<exists>ps b' w'. write_calls e os fd cs new_write_buffer w = Some (ps, b', w')
    \<and> out fd w' @ fw_live b' = out fd w @ concat (map encode_frame ps)
    \<and> pendingBytes b' = length (fw_live b')"
proof -
  obtain ps b' w' where ret: "write_calls e os fd cs new_write_buffer w = Some (ps, b', w')"
    using write_calls_return [OF assms] by blast
  from write_calls_stream [OF assms(1) new_write_buffer_wf ret] ret fwb.size_live [of b']
  show ?thesis by auto
qed

theorem write_buffer_preserves_stream_witness:
  "send_contract sample_os sample_out \<and> send_interrupts_end sample_os k_intr \<and>
   (\<exists>ps b' w'. write_calls Big sample_os 7 [Enqueue [1, 2], Flush, Enqueue [3]] new_write_buffer sample_world
       = Some (ps, b', w')
     \<and> sample_out 7 w' @ fw_live b' = concat (map encode_frame ps))"
  using write_buffer_preserves_stream [OF sample_send_contract sample_send_interrupts, of Big 7
      "[Enqueue [1, 2], Flush, Enqueue [3]]" sample_world] sample_contracts
  by (auto simp: sample_world_def)

end
