(* ===== verification/Connection_State.thy ===== *)
theory Connection_State
  imports Sample_Kernel Socket_Handle Frame_Decoder Frame_Write_Buffer
begin

text \<open>
  One client connection: \<open>include/netpulse/server/connection.hpp\<close> and
  \<open>src/server/connection.cpp\<close>. \<open>readAvailable\<close> reads a non-blocking socket until it
  would block and returns the frames that became complete. It is proved to compute the
  frames of the received stream as the wire format defines them, however the stream was
  cut into reads.
\<close>

section \<open>State and operations\<close>

datatype ConnectionReadStatus = cr_ready | cr_peer_closed | cr_protocol_error | cr_io_error

record ConnectionReadResult =
  cr_status :: ConnectionReadStatus
  cr_frames :: "bytes list"
  cr_error_number :: errno

record Connection =
  conn_socket :: Socket
  conn_decoder :: FrameDecoder
  conn_write_buffer :: FrameWriteBuffer

definition new_connection :: "Socket \<Rightarrow> Connection" where
  "new_connection s = \<lparr>conn_socket = s, conn_decoder = new_decoder,
     conn_write_buffer = new_write_buffer\<rparr>"

definition conn_valid :: "Connection \<Rightarrow> bool" where
  "conn_valid c \<longleftrightarrow> socket_valid (conn_socket c)"

definition conn_fd :: "Connection \<Rightarrow> fd" where
  "conn_fd c = sock_fd (conn_socket c)"

definition kReadBufferSize :: nat where
  "kReadBufferSize = 4096"

text \<open>
  The inner loop of \<open>readAvailable\<close>: decode until no frame is ready. The first component
  of the result is set when the loop ended with \<open>payload_too_large\<close>.
\<close>

function decode_ready ::
  "endian \<Rightarrow> FrameDecoder \<Rightarrow> bytes list \<Rightarrow> bool \<times> bytes list \<times> FrameDecoder" where
  "decode_ready e d frames =
     (case decodeNext e d of
        (decode_result, d') \<Rightarrow>
          if dr_status decode_result = frame_ready then
            decode_ready e d' (frames @ [dr_payload decode_result])
          else if dr_status decode_result = payload_too_large then (True, frames, d')
          else (False, frames, d'))"
  by pat_completeness auto
termination
  by (relation "measure (\<lambda>(e, d, frames). bufferedBytes d)") (auto dest: decodeNext_decreases [OF sym])

declare decode_ready.simps [simp del]

text \<open>One iteration of the outer loop, on the frames so far, the decoder and the world.\<close>

definition readAvailable_body ::
  "endian \<Rightarrow> 'w os \<Rightarrow> fd \<Rightarrow> bytes list \<times> FrameDecoder \<times> 'w
     \<Rightarrow> bytes list \<times> FrameDecoder \<times> 'w + ConnectionReadResult \<times> FrameDecoder \<times> 'w" where
  "readAvailable_body e os fd = (\<lambda>(frames, d, w).
     case sys_recv os fd kReadBufferSize 0 w of
       (Ok received, w') \<Rightarrow>
         if 0 < length received then
           (case decode_ready e (decoder_append received d) frames of
              (too_large, frames', d') \<Rightarrow>
                if too_large then
                  Inr (\<lparr>cr_status = cr_protocol_error, cr_frames = frames', cr_error_number = 0\<rparr>,
                       d', w')
                else Inl (frames', d', w'))
         else
           Inr (\<lparr>cr_status = cr_peer_closed, cr_frames = frames, cr_error_number = 0\<rparr>, d, w')
     | (Fail error_number, w') \<Rightarrow>
         if error_number = EINTR then Inl (frames, d, w')
         else if error_number = EAGAIN \<or> error_number = EWOULDBLOCK then
           Inr (\<lparr>cr_status = cr_ready, cr_frames = frames, cr_error_number = 0\<rparr>, d, w')
         else
           Inr (\<lparr>cr_status = cr_io_error, cr_frames = frames, cr_error_number = error_number\<rparr>,
                d, w'))"

definition readAvailable ::
  "endian \<Rightarrow> 'w os \<Rightarrow> Connection \<Rightarrow> 'w \<Rightarrow> (ConnectionReadResult \<times> Connection \<times> 'w) option" where
  "readAvailable e os c w =
     map_option (\<lambda>(r, d, w'). (r, c\<lparr>conn_decoder := d\<rparr>, w'))
       (loop (readAvailable_body e os (conn_fd c)) ([], conn_decoder c, w))"

definition queueFrame :: "endian \<Rightarrow> bytes \<Rightarrow> Connection \<Rightarrow> FrameQueueStatus \<times> Connection" where
  "queueFrame e payload c =
     (case enqueue e payload (conn_write_buffer c) of
        (status, b) \<Rightarrow> (status, c\<lparr>conn_write_buffer := b\<rparr>))"

definition flushWrites ::
  "'w os \<Rightarrow> Connection \<Rightarrow> 'w \<Rightarrow> (FrameFlushResult \<times> Connection \<times> 'w) option" where
  "flushWrites os c w =
     map_option (\<lambda>(r, b, w'). (r, c\<lparr>conn_write_buffer := b\<rparr>, w'))
       (flush os (conn_fd c) (conn_write_buffer c) w)"

definition wantsWrite :: "Connection \<Rightarrow> bool" where
  "wantsWrite c \<longleftrightarrow> \<not> fw_empty (conn_write_buffer c)"

text \<open>The destructor closes the socket.\<close>

definition conn_destroy :: "'w os \<Rightarrow> Connection \<Rightarrow> 'w \<Rightarrow> 'w" where
  "conn_destroy os c w = socket_destroy os (conn_socket c) w"

section \<open>The inner loop finds the frames of the wire format\<close>

lemma decode_ready_parse:
  assumes "decoder_wf d"
  shows "decode_ready e d frames = (too_large, frames', d') \<Longrightarrow>
    decoder_wf d' \<and>
    (\<exists>ps st. parse_frames (decoder_live d) = (ps, st, decoder_live d') \<and> frames' = frames @ ps
       \<and> (too_large \<longleftrightarrow> st = Oversized))"
  using assms
proof (induction e d frames rule: decode_ready.induct)
  case (1 e d frames)
  note wf = 1(3) and dec = decodeNext_cases [OF 1(3), of e]
  show ?case
  proof (cases "next_frame (decoder_live d)")
    case (Frame p r)
    let ?d = "decoder_compact (d\<lparr>dec_read_offset := dec_read_offset d + 4 + length p\<rparr>)"
    have dec': "decodeNext e d = (\<lparr>dr_status = frame_ready, dr_payload = p\<rparr>, ?d)"
      using dec Frame by simp
    have "decode_ready e ?d (frames @ [p]) = (too_large, frames', d')"
      using 1(2) dec' by (subst (asm) decode_ready.simps) simp
    from 1(1) [OF dec' [symmetric] _ _] this decodeNext_frame_state [OF wf Frame]
    obtain ps st where "decoder_wf d'" "parse_frames r = (ps, st, decoder_live d')"
      "frames' = frames @ p # ps" "too_large \<longleftrightarrow> st = Oversized" by auto
    then show ?thesis using wire.parse_step [OF Frame] by auto
  qed (use 1(2) wf dec wire.parse_stops [of "decoder_live d"] in
      \<open>auto simp: decode_ready.simps [of e d]\<close>)
qed

section \<open>readAvailable on a received stream\<close>

text \<open>Between two calls of \<open>readAvailable\<close> no complete frame is left in the decoder.\<close>

definition conn_wf :: "Connection \<Rightarrow> bool" where
  "conn_wf c \<longleftrightarrow> decoder_wf (conn_decoder c) \<and> next_frame (decoder_live (conn_decoder c)) = Incomplete
     \<and> fw_wf (conn_write_buffer c)"

definition conn_in :: "Connection \<Rightarrow> bytes" where
  "conn_in c = decoder_live (conn_decoder c)"

definition conn_out :: "Connection \<Rightarrow> bytes" where
  "conn_out c = fw_live (conn_write_buffer c)"

lemma new_connection_wf [simp]: "conn_wf (new_connection s)"
  by (simp add: conn_wf_def new_connection_def next_frame_def)

text \<open>
  The invariant of the outer loop: the frames so far are those of the stream that was left
  in the decoder at the call followed by what was received since, and the decoder holds
  the rest of it.
\<close>

definition read_inv ::
  "(fd \<Rightarrow> 'w \<Rightarrow> bytes) \<Rightarrow> fd \<Rightarrow> FrameDecoder \<Rightarrow> 'w \<Rightarrow> (bytes, byte) next_frame_result
     \<Rightarrow> bytes list \<Rightarrow> FrameDecoder \<Rightarrow> 'w \<Rightarrow> bool" where
  "read_inv inp fd d0 w0 st frames d w \<longleftrightarrow> decoder_wf d \<and>
     (\<exists>rx. inp fd w = inp fd w0 @ rx \<and>
        parse_frames (decoder_live d0 @ rx) = (frames, st, decoder_live d))"

lemma read_inv_start:
  "decoder_wf d \<Longrightarrow> next_frame (decoder_live d) = Incomplete \<Longrightarrow> read_inv inp fd d w Incomplete [] d w"
  using wire.parse_stops [of "decoder_live d"] by (simp add: read_inv_def)

lemma read_inv_recv:
  assumes os: "recv_contract os inp" and inv: "read_inv inp fd d0 w0 Incomplete frames d w"
    and ok: "sys_recv os fd n flags w = (Ok bs, w')"
    and dec: "decode_ready e (decoder_append bs d) frames = (too_large, frames', d')"
  shows "read_inv inp fd d0 w0 (if too_large then Oversized else Incomplete) frames' d' w'"
proof -
  from inv obtain rx where wf: "decoder_wf d" and rx: "inp fd w = inp fd w0 @ rx"
    and parsed: "parse_frames (decoder_live d0 @ rx) = (frames, Incomplete, decoder_live d)"
    by (auto simp: read_inv_def)
  from decode_ready_parse [OF decoder_append_wf [OF wf] dec] obtain ps st
    where d': "decoder_wf d'" and fr: "frames' = frames @ ps" and tl: "too_large \<longleftrightarrow> st = Oversized"
      and ps: "parse_frames (decoder_live d @ bs) = (ps, st, decoder_live d')"
    by (auto simp: decoder_append_live [OF wf])
  have "st = (if too_large then Oversized else Incomplete)"
    using wire.parse_sound [OF ps] tl by auto
  with wire.parse_append_incomplete [OF parsed ps] fr
  have "parse_frames (decoder_live d0 @ rx @ bs) =
      (frames', if too_large then Oversized else Incomplete, decoder_live d')" by simp
  moreover have "inp fd w' = inp fd w0 @ rx @ bs" using recv_contractD(2) [OF os ok] rx by simp
  ultimately show ?thesis using d' unfolding read_inv_def by blast
qed

lemma read_inv_fail:
  assumes "recv_contract os inp" and "read_inv inp fd d0 w0 st frames d w"
    and "sys_recv os fd n flags w = (Fail en, w')"
  shows "read_inv inp fd d0 w0 st frames d w'"
  using assms(2) recv_contractD(3) [OF assms(1,3)] by (auto simp: read_inv_def)

lemma read_inv_eof:
  assumes "recv_contract os inp" and "read_inv inp fd d0 w0 st frames d w"
    and "sys_recv os fd n flags w = (Ok [], w')"
  shows "read_inv inp fd d0 w0 st frames d w'"
  using assms(2) recv_contractD(2) [OF assms(1,3)] by (auto simp: read_inv_def)

lemma readAvailable_body_continue [loop_bodies]:
  "readAvailable_body e os fd (fs, d, w) = Inl (fs', d', w') \<longleftrightarrow>
     (\<exists>bs. sys_recv os fd kReadBufferSize 0 w = (Ok bs, w') \<and> bs \<noteq> []
        \<and> decode_ready e (decoder_append bs d) fs = (False, fs', d'))
     \<or> (sys_recv os fd kReadBufferSize 0 w = (Fail EINTR, w') \<and> fs' = fs \<and> d' = d)"
  by (auto simp: readAvailable_body_def split: prod.splits sys_ret.splits if_splits)

lemma readAvailable_body_leave [loop_bodies]:
  "readAvailable_body e os fd (fs, d, w) = Inr (r, d', w') \<Longrightarrow>
     (\<exists>bs. sys_recv os fd kReadBufferSize 0 w = (Ok bs, w') \<and> cr_status r = cr_protocol_error
        \<and> decode_ready e (decoder_append bs d) fs = (True, cr_frames r, d'))
     \<or> (sys_recv os fd kReadBufferSize 0 w = (Ok [], w') \<and> cr_status r = cr_peer_closed
        \<and> cr_frames r = fs \<and> d' = d)
     \<or> (\<exists>en. sys_recv os fd kReadBufferSize 0 w = (Fail en, w')
        \<and> cr_status r = (if en = EAGAIN then cr_ready else cr_io_error)
        \<and> cr_frames r = fs \<and> d' = d)"
  (is "?leave \<Longrightarrow> ?goal")
proof -
  assume leave: ?leave
  obtain res v where recv: "sys_recv os fd kReadBufferSize 0 w = (res, v)" by fastforce
  show ?goal
  proof (cases res)
    case (Ok bs)
    obtain tl fs1 d1 where "decode_ready e (decoder_append bs d) fs = (tl, fs1, d1)"
      by (metis prod_cases3)
    with leave recv Ok show ?thesis
      by (cases "bs = []"; cases tl) (auto simp: readAvailable_body_def)
  next
    case (Fail en)
    with leave recv show ?thesis by (auto simp: readAvailable_body_def split: if_splits)
  qed
qed

definition read_end :: "ConnectionReadResult \<Rightarrow> (bytes, byte) next_frame_result" where
  "read_end r = (if cr_status r = cr_protocol_error then Oversized else Incomplete)"

lemma readAvailable_loop_post:
  assumes os: "recv_contract os inp" and start: "read_inv inp fd d0 w0 Incomplete [] d0 w0"
    and ret: "loop (readAvailable_body e os fd) ([], d0, w0) = Some (r, d', w')"
  shows "read_inv inp fd d0 w0 (read_end r) (cr_frames r) d' w'"
proof -
  let ?I = "\<lambda>(fs, d, v). read_inv inp fd d0 w0 Incomplete fs d v"
  let ?Q = "\<lambda>(r, d', w'). read_inv inp fd d0 w0 (read_end r) (cr_frames r) d' w'"
  have "?Q (r, d', w')"
  proof (rule loop_rule [OF ret, where I = ?I])
    show "?I ([], d0, w0)" using start by simp
  next
    fix s s' assume "?I s" and "readAvailable_body e os fd s = Inl s'"
    then show "?I s'"
      by (cases s; cases s') (auto simp: readAvailable_body_continue
          dest: read_inv_recv [OF os] intro: read_inv_fail [OF os])
  next
    fix s q assume "?I s" and "readAvailable_body e os fd s = Inr q"
    then show "?Q q"
      by (cases s; cases q) (auto simp: read_end_def dest!: readAvailable_body_leave
          split: if_splits
          dest: read_inv_recv [OF os] intro: read_inv_fail [OF os] read_inv_eof [OF os])
  qed
  then show ?thesis by simp
qed

lemma readAvailable_post:
  assumes os: "recv_contract os inp" and wf: "conn_wf c"
    and ret: "readAvailable e os c w = Some (r, c', w')"
  shows "\<exists>rx. inp (conn_fd c) w' = inp (conn_fd c) w @ rx \<and>
      parse_frames (conn_in c @ rx) = (cr_frames r, read_end r, conn_in c')"
    and "decoder_wf (conn_decoder c')" and "c' = c\<lparr>conn_decoder := conn_decoder c'\<rparr>"
    and "cr_status r \<noteq> cr_protocol_error \<Longrightarrow> conn_wf c'"
proof -
  from ret obtain d' where d: "loop (readAvailable_body e os (conn_fd c)) ([], conn_decoder c, w)
      = Some (r, d', w')" and c': "c' = c\<lparr>conn_decoder := d'\<rparr>"
    by (auto simp: readAvailable_def)
  have "read_inv inp (conn_fd c) (conn_decoder c) w Incomplete [] (conn_decoder c) w"
    using wf by (simp add: conn_wf_def read_inv_start)
  from readAvailable_loop_post [OF os this d] obtain rx where
    post: "decoder_wf d'" "inp (conn_fd c) w' = inp (conn_fd c) w @ rx"
      "parse_frames (conn_in c @ rx) = (cr_frames r, read_end r, decoder_live d')"
    by (auto simp: read_inv_def conn_in_def)
  then show "\<exists>rx. inp (conn_fd c) w' = inp (conn_fd c) w @ rx \<and>
      parse_frames (conn_in c @ rx) = (cr_frames r, read_end r, conn_in c')"
    using c' by (auto simp: conn_in_def)
  show "decoder_wf (conn_decoder c')" and "c' = c\<lparr>conn_decoder := conn_decoder c'\<rparr>"
    using c' post by simp_all
  show "conn_wf c'" if "cr_status r \<noteq> cr_protocol_error"
    using wire.parse_sound [OF post(3)] that wf c' post(1) by (simp add: conn_wf_def read_end_def)
qed

lemma readAvailable_returns:
  assumes "recv_drains os (conn_fd c) m"
  shows "\<exists>r c' w'. readAvailable e os c w = Some (r, c', w')"
proof -
  have "\<exists>q. loop (readAvailable_body e os (conn_fd c)) ([], conn_decoder c, w) = Some q"
  proof (rule loop_terminates [where I = "\<lambda>_. True" and R = "measure (\<lambda>(fs, d, v). m v)"])
    fix s s' assume "readAvailable_body e os (conn_fd c) s = Inl s'"
    then show "True \<and> (s', s) \<in> measure (\<lambda>(fs, d, v). m v)"
      by (cases s; cases s')
        (auto simp: readAvailable_body_continue dest: interrupts_endD(3,4) [OF assms])
  qed simp_all
  then show ?thesis by (auto simp: readAvailable_def)
qed

section \<open>Memory held by a connection\<close>

lemma incomplete_bound: "next_frame s = Incomplete \<Longrightarrow> length s < 4 + 1048576"
  by (auto simp: next_frame_def Let_def word_less_nat_alt split: if_splits)

lemma conn_wf_memory:
  "conn_wf c \<Longrightarrow> length (dec_buffer (conn_decoder c)) < 4096 + 2 * (4 + 1048576)"
  using decoder_wf_memory [of "conn_decoder c"] incomplete_bound [of "decoder_live (conn_decoder c)"]
  by (simp add: conn_wf_def dec.size_live)

section \<open>Writing\<close>

lemma queueFrame_post:
  assumes "conn_wf c" and "queueFrame e p c = (st, c')"
  shows "conn_wf c'" and "c' = c\<lparr>conn_write_buffer := conn_write_buffer c'\<rparr>"
    and "st = (if fits_frame p then fq_queued else fq_payload_too_large)"
    and "conn_out c' = conn_out c @ (if fits_frame p then encode_frame p else [])"
  using assms enqueue_queued [of p "conn_write_buffer c" e] enqueue_wf [of "conn_write_buffer c" e p]
  by (auto simp: queueFrame_def conn_wf_def conn_out_def enqueue_too_large split: prod.splits)

lemma flushWrites_post:
  assumes os: "send_contract os out" and wf: "conn_wf c"
    and ret: "flushWrites os c w = Some (r, c', w')"
  shows "conn_wf c'" and "c' = c\<lparr>conn_write_buffer := conn_write_buffer c'\<rparr>"
    and "sent_prefix out (conn_fd c) (conn_out c) w (ff_bytes_transferred r) w'"
    and "conn_out c' = drop (ff_bytes_transferred r) (conn_out c)"
    and "ff_status r = ff_drained \<longleftrightarrow> \<not> wantsWrite c'"
proof -
  from ret obtain b' where b: "flush os (conn_fd c) (conn_write_buffer c) w = Some (r, b', w')"
    and c': "c' = c\<lparr>conn_write_buffer := b'\<rparr>"
    by (auto simp: flushWrites_def)
  have fw: "fw_wf (conn_write_buffer c)" using wf by (simp add: conn_wf_def)
  note post = flush_post [OF os fw b]
  show "conn_wf c'" and "c' = c\<lparr>conn_write_buffer := conn_write_buffer c'\<rparr>"
    using c' wf post(1) by (simp_all add: conn_wf_def)
  show "sent_prefix out (conn_fd c) (conn_out c) w (ff_bytes_transferred r) w'"
    and "conn_out c' = drop (ff_bytes_transferred r) (conn_out c)"
    using c' post(2,3) by (simp_all add: conn_out_def)
  show "ff_status r = ff_drained \<longleftrightarrow> \<not> wantsWrite c'"
    using c' post(4) fw_empty_live [OF post(1)] by (simp add: wantsWrite_def)
qed

lemma wantsWrite_iff: "conn_wf c \<Longrightarrow> wantsWrite c \<longleftrightarrow> conn_out c \<noteq> []"
  by (simp add: wantsWrite_def conn_out_def conn_wf_def fw_empty_live)

lemma flushWrites_returns:
  assumes "send_contract os out" and "send_interrupts_end os m"
  shows "\<exists>r c' w'. flushWrites os c w = Some (r, c', w')"
  using flush_returns [OF assms, of "conn_fd c" "conn_write_buffer c" w]
  by (auto simp: flushWrites_def)

section \<open>A connection over its lifetime\<close>

text \<open>The event loop calls \<open>readAvailable\<close> again as long as it returns \<open>ready\<close>.\<close>

fun read_calls ::
  "endian \<Rightarrow> 'w os \<Rightarrow> nat \<Rightarrow> Connection \<Rightarrow> 'w \<Rightarrow>
     (bytes list \<times> ConnectionReadStatus \<times> Connection \<times> 'w) option" where
  "read_calls e os 0 c w = Some ([], cr_ready, c, w)"
| "read_calls e os (Suc n) c w =
     (case readAvailable e os c w of
        None \<Rightarrow> None
      | Some (r, c1, w1) \<Rightarrow>
          if cr_status r = cr_ready then
            map_option (\<lambda>(fs, q). (cr_frames r @ fs, q)) (read_calls e os n c1 w1)
          else Some (cr_frames r, cr_status r, c1, w1))"

lemma conn_fd_decoder [simp]: "conn_fd (c\<lparr>conn_decoder := d\<rparr>) = conn_fd c"
  by (simp add: conn_fd_def)

lemma read_calls_parse:
  assumes os: "recv_contract os inp"
  shows "conn_wf c \<Longrightarrow> read_calls e os n c w = Some (fs, st, c', w') \<Longrightarrow>
    conn_fd c' = conn_fd c \<and>
    (\<exists>rx. inp (conn_fd c) w' = inp (conn_fd c) w @ rx \<and>
       parse_frames (conn_in c @ rx) =
         (fs, if st = cr_protocol_error then Oversized else Incomplete, conn_in c'))"
proof (induction n arbitrary: c w fs)
  case 0
  then show ?case
    using wire.parse_stops [of "conn_in c"] by (auto simp: conn_wf_def conn_in_def)
next
  case (Suc n)
  from Suc.prems(2) obtain r c1 w1 where ra: "readAvailable e os c w = Some (r, c1, w1)"
    by (auto split: option.splits)
  note post = readAvailable_post [OF os Suc.prems(1) ra]
  from post(1) obtain rx where rx: "inp (conn_fd c) w1 = inp (conn_fd c) w @ rx"
    and parsed: "parse_frames (conn_in c @ rx) = (cr_frames r, read_end r, conn_in c1)" by blast
  have fd: "conn_fd c1 = conn_fd c" using post(3) by (metis conn_fd_decoder)
  show ?case
  proof (cases "cr_status r = cr_ready")
    case True
    with Suc.prems(2) ra obtain gs where gs: "read_calls e os n c1 w1 = Some (gs, st, c', w')"
      and fs: "fs = cr_frames r @ gs" by auto
    have "conn_wf c1" using post(4) True by simp
    from Suc.IH [OF this gs] fd obtain ry where ry: "conn_fd c' = conn_fd c"
      "inp (conn_fd c) w' = inp (conn_fd c) w1 @ ry"
      "parse_frames (conn_in c1 @ ry) =
         (gs, if st = cr_protocol_error then Oversized else Incomplete, conn_in c')" by auto
    have "parse_frames (conn_in c @ rx) = (cr_frames r, Incomplete, conn_in c1)"
      using parsed True by (simp add: read_end_def)
    from wire.parse_append_incomplete [OF this ry(3)] ry(1,2) rx fs show ?thesis by auto
  next
    case False
    with Suc.prems(2) ra have "fs = cr_frames r" "st = cr_status r" "c' = c1" "w' = w1" by auto
    with rx parsed fd show ?thesis by (auto simp: read_end_def)
  qed
qed

lemma parse_frames_nil: "parse_frames [] = ([], Incomplete, [])"
  using wire.parse_stops [of "[]"] wire.nxt_empty by simp

section \<open>Properties\<close>

text \<open>C9: On a well-formed connection whose socket has finitely much data available,
  \<open>readAvailable\<close> returns, and the frames it returns are those which the wire format finds
  in the bytes left in the decoder followed by the bytes it received, while the decoder
  keeps what remains; it reports a protocol error exactly when the stream announces an
  oversized payload, and otherwise leaves the connection well-formed.\<close>

theorem readAvailable_yields_stream_frames:
  assumes "recv_contract os inp" and "recv_drains os (conn_fd c) m" and "conn_wf c"
  shows "\<exists>r c' w' rx. readAvailable e os c w = Some (r, c', w')
    \<and> inp (conn_fd c) w' = inp (conn_fd c) w @ rx
    \<and> parse_frames (conn_in c @ rx) =
        (cr_frames r, if cr_status r = cr_protocol_error then Oversized else Incomplete, conn_in c')
    \<and> conn_out c' = conn_out c \<and> (cr_status r = cr_protocol_error \<or> conn_wf c')"
proof -
  obtain r c' w' where ret: "readAvailable e os c w = Some (r, c', w')"
    using readAvailable_returns [OF assms(2)] by blast
  note post = readAvailable_post [OF assms(1,3) ret]
  have "conn_out c' = conn_out c" by (subst post(3)) (simp add: conn_out_def)
  with post ret show ?thesis by (fastforce simp: read_end_def)
qed

theorem readAvailable_yields_stream_frames_witness:
  "\<exists>r c' w' rx. readAvailable Little sample_os (new_connection (Socket_of_fd 7))
      (sample_world\<lparr>k_avail := (\<lambda>_. encode_frame [1, 2] @ [0])\<rparr>) = Some (r, c', w')
    \<and> sample_in 7 w' = rx
    \<and> parse_frames rx = (cr_frames r,
        if cr_status r = cr_protocol_error then Oversized else Incomplete, conn_in c')"
proof -
  let ?c = "new_connection (Socket_of_fd 7)"
    and ?w = "sample_world\<lparr>k_avail := (\<lambda>_. encode_frame [1, 2] @ [0])\<rparr>"
  have c: "conn_fd ?c = 7" "conn_in ?c = []" and w: "sample_in 7 ?w = []"
    by (simp_all add: conn_fd_def conn_in_def new_connection_def Socket_of_fd_def sample_world_def)
  from readAvailable_yields_stream_frames [OF sample_recv_contract sample_recv_drains new_connection_wf,
      of Little "Socket_of_fd 7" ?w]
  obtain r c' w' rx where "readAvailable Little sample_os ?c ?w = Some (r, c', w')"
    "sample_in 7 w' = rx" "parse_frames rx = (cr_frames r,
        if cr_status r = cr_protocol_error then Oversized else Incomplete, conn_in c')"
    unfolding c w by auto
  then show ?thesis by blast
qed

lemma connection_delivers_sent_frames_facts:
  assumes "recv_contract os inp"
    and "read_calls e os n (new_connection s) w = Some (frames, st, c', w')"
    and "inp (sock_fd s) w' = inp (sock_fd s) w @ concat (map encode_frame payloads)"
    and "\<And>p. p \<in> set payloads \<Longrightarrow> length p \<le> 1048576"
  shows "frames = payloads" and "st \<noteq> cr_protocol_error" and "conn_in c' = []"
proof -
  have fits: "fits_frame p" if "p \<in> set payloads" for p using assms(4) that by (simp add: fits_frame_def)
  have new: "conn_fd (new_connection s) = sock_fd s" "conn_in (new_connection s) = []"
    by (simp_all add: conn_fd_def conn_in_def new_connection_def)
  from read_calls_parse [OF assms(1) new_connection_wf assms(2)] assms(3) new
  have "parse_frames (concat (map encode_frame payloads)) =
      (frames, if st = cr_protocol_error then Oversized else Incomplete, conn_in c')" by auto
  with wire.parse_encodings [of payloads "[]", OF fits parse_frames_nil]
  show "frames = payloads" and "st \<noteq> cr_protocol_error" and "conn_in c' = []"
    by (auto split: if_splits)
qed

text \<open>C3: However the network cuts the stream into reads and however many calls of
  \<open>readAvailable\<close> it takes, the frames a new connection delivers are exactly the payloads
  the peer has encoded, in order, and there is no protocol error.\<close>

theorem connection_delivers_sent_frames:
  assumes "recv_contract os inp"
    and "read_calls e os n (new_connection s) w = Some (frames, st, c', w')"
    and "inp (sock_fd s) w' = inp (sock_fd s) w @ concat (map encode_frame payloads)"
    and "\<And>p. p \<in> set payloads \<Longrightarrow> length p \<le> 1048576"
  shows "frames = payloads \<and> st \<noteq> cr_protocol_error \<and> conn_in c' = []"
  using connection_delivers_sent_frames_facts [OF assms] by blast

lemma encode_empty: "encode_frame [] = [0, 0, 0, 0]"
  by (simp add: encode_frame_def be_bytes_def)

lemma decode_empty_frame:
  "decode_ready Little (decoder_append [0, 0, 0, 0] new_decoder) [] = (False, [[]], new_decoder)"
proof -
  let ?d = "decoder_append [0, 0, 0, 0] new_decoder"
  have "next_frame [0, 0, 0, 0] = Frame [] []"
    using next_frame_encode [of "[]" "[]"] by (simp add: fits_frame_def encode_empty)
  moreover have "decoder_live ?d = [0, 0, 0, 0]" by (simp add: decoder_append_live)
  ultimately have "decodeNext Little ?d = (\<lparr>dr_status = frame_ready, dr_payload = []\<rparr>, new_decoder)"
    using decodeNext_cases [OF decoder_append_wf [OF new_decoder_wf], of Little "[0, 0, 0, 0]"]
    by (simp add: decoder_compact_def decoder_append_def new_decoder_def)
  moreover have "decodeNext Little new_decoder = (\<lparr>dr_status = need_more_data, dr_payload = []\<rparr>, new_decoder)"
    by (simp add: decodeNext_def bufferedBytes_def new_decoder_def kFrameHeaderSize_def)
  ultimately show ?thesis by (simp add: decode_ready.simps)
qed

lemma sample_readAvailable:
  "readAvailable Little bulk_os (new_connection (Socket_of_fd 7))
     (sample_world\<lparr>k_avail := (\<lambda>_. [])(7 := encode_frame [])\<rparr>) =
   Some (\<lparr>cr_status = cr_ready, cr_frames = [[]], cr_error_number = 0\<rparr>,
     new_connection (Socket_of_fd 7), sample_world\<lparr>k_in := (\<lambda>_. [])(7 := encode_frame [])\<rparr>)"
  (is "readAvailable _ _ ?c ?w = Some (?r, ?c, ?w')")
proof -
  have upd: "(\<lambda>_. [])(7 := []) = (\<lambda>_ :: fd. [] :: bytes)" by auto
  note enc = encode_empty and dec = decode_empty_frame
  have 1: "readAvailable_body Little bulk_os 7 ([], new_decoder, ?w) = Inl ([[]], new_decoder, ?w')"
    by (simp add: readAvailable_body_def bulk_os_def sample_world_def kReadBufferSize_def enc dec upd)
  have 2: "readAvailable_body Little bulk_os 7 ([[]], new_decoder, ?w') = Inr (?r, new_decoder, ?w')"
    by (simp add: readAvailable_body_def bulk_os_def sample_world_def)
  have "loop (readAvailable_body Little bulk_os 7) ([], new_decoder, ?w) = Some (?r, new_decoder, ?w')"
    using loop_continue [of "readAvailable_body Little bulk_os 7", OF 1]
      loop_leave [of "readAvailable_body Little bulk_os 7", OF 2] by simp
  then show ?thesis
    by (simp add: readAvailable_def new_connection_def conn_fd_def Socket_of_fd_def)
qed

theorem connection_delivers_sent_frames_witness:
  "read_calls Little bulk_os 1 (new_connection (Socket_of_fd 7))
     (sample_world\<lparr>k_avail := (\<lambda>_. [])(7 := encode_frame [])\<rparr>) =
   Some ([[]], cr_ready, new_connection (Socket_of_fd 7), sample_world\<lparr>k_in := (\<lambda>_. [])(7 := encode_frame [])\<rparr>)
   \<and> [[]] = [[] :: bytes] \<and> cr_ready \<noteq> cr_protocol_error"
proof -
  have calls: "read_calls Little bulk_os 1 (new_connection (Socket_of_fd 7))
     (sample_world\<lparr>k_avail := (\<lambda>_. [])(7 := encode_frame [])\<rparr>) =
   Some ([[]], cr_ready, new_connection (Socket_of_fd 7), sample_world\<lparr>k_in := (\<lambda>_. [])(7 := encode_frame [])\<rparr>)"
    using sample_readAvailable by simp
  have "sample_in (sock_fd (Socket_of_fd 7)) (sample_world\<lparr>k_in := (\<lambda>_. [])(7 := encode_frame [])\<rparr>) =
      sample_in (sock_fd (Socket_of_fd 7)) (sample_world\<lparr>k_avail := (\<lambda>_. [])(7 := encode_frame [])\<rparr>)
        @ concat (map encode_frame [[]])"
    by (simp add: Socket_of_fd_def sample_world_def)
  from connection_delivers_sent_frames [OF bulk_contracts(2) calls this] calls show ?thesis by simp
qed

text \<open>C24: The bytes a connection holds for decoding are bounded: between two reads its decoder's
  buffer, dead bytes included, is smaller than 4096 bytes plus twice the largest
  frame, whatever the peer sends.\<close>

theorem connection_memory_bounded:
  assumes "recv_contract os inp" and "conn_wf c"
    and "readAvailable e os c w = Some (r, c', w')" and "cr_status r \<noteq> cr_protocol_error"
  shows "length (dec_buffer (conn_decoder c')) < 4096 + 2 * (4 + 1048576)"
  using readAvailable_post(4) [OF assms] by (rule conn_wf_memory)

theorem connection_memory_bounded_witness:
  "length (dec_buffer (conn_decoder (new_connection (Socket_of_fd 7)))) < 4096 + 2 * (4 + 1048576)"
  by (rule connection_memory_bounded [OF bulk_contracts(2) new_connection_wf sample_readAvailable]) simp

text \<open>C33: \<open>readAvailable\<close> gives control back only when its socket runs dry: with a peer that
  always has another well-formed frame available the call never returns, and with it the
  thread that serves every other connection.\<close>

theorem readAvailable_starves:
  assumes "conn_in c = []" and "conn_wf c" and "length p \<le> 1048576"
    and busy: "\<And>v. \<exists>v'. sys_recv os (conn_fd c) 4096 0 v = (Ok (encode_frame p), v')"
  shows "readAvailable e os c w = None"
proof -
  let ?I = "\<lambda>(fs :: bytes list, d, v :: 'a). decoder_wf d \<and> decoder_live d = []"
  have fits: "fits_frame p" using assms(3) by (simp add: fits_frame_def)
  have parsed: "parse_frames (encode_frame p) = ([p], Incomplete, [])"
    using wire.parse_encodings [of "[p]" "[]", OF _ parse_frames_nil] fits by simp
  have "loop (readAvailable_body e os (conn_fd c)) ([], conn_decoder c, w) = None"
  proof (rule loop_diverges [where I = ?I])
    show "?I ([], conn_decoder c, w)" using assms(1,2) by (simp add: conn_wf_def conn_in_def)
  next
    fix s assume I: "?I s"
    obtain fs d v where s: "s = (fs, d, v)" by (cases s) auto
    from busy obtain v' where v': "sys_recv os (conn_fd c) kReadBufferSize 0 v = (Ok (encode_frame p), v')"
      by (auto simp: kReadBufferSize_def)
    obtain tl fs' d' where dec: "decode_ready e (decoder_append (encode_frame p) d) fs = (tl, fs', d')"
      by (metis prod_cases3)
    have "decoder_wf d" "decoder_live (decoder_append (encode_frame p) d) = encode_frame p"
      using I s decoder_append_live [of d "encode_frame p"] by auto
    with decode_ready_parse [OF decoder_append_wf dec] parsed
    have "decoder_wf d'" "decoder_live d' = []" "\<not> tl" by auto
    moreover have "encode_frame p \<noteq> []" by (metis length_encode_frame list.size(3) add_is_0 zero_neq_numeral)
    ultimately show "\<exists>s'. readAvailable_body e os (conn_fd c) s = Inl s' \<and> ?I s'"
      using v' dec s by (intro exI [of _ "(fs', d', v')"]) (simp add: readAvailable_body_def)
  qed
  then show ?thesis by (simp add: readAvailable_def)
qed

theorem readAvailable_starves_witness:
  "readAvailable Little (sample_os\<lparr>sys_recv := (\<lambda>fd n flags k. (Ok (encode_frame [1]), k))\<rparr>)
     (new_connection (Socket_of_fd 7)) sample_world = None"
  by (rule readAvailable_starves [where p = "[1]"])
    (simp_all add: conn_in_def new_connection_def conn_wf_def next_frame_def)

end
