(* ===== verification/Epoll_Handle.thy ===== *)
theory Epoll_Handle
  imports Owned_Descriptor Sample_Kernel
begin

text \<open>
  The class \<open>Epoll\<close> (\<open>include/netpulse/network/epoll.hpp\<close>, \<open>src/network/epoll.cpp\<close>) and
  the function \<open>setNonBlocking\<close> (\<open>include/netpulse/network/nonblocking.hpp\<close>,
  \<open>src/network/nonblocking.cpp\<close>).
\<close>

unbundle bit_operations_syntax

section \<open>State and life cycle\<close>

record EpollOperationResult =
  epo_success :: bool
  epo_error_number :: errno

record EpollWaitResult =
  epw_event_count :: int
  epw_error_number :: errno

definition EpollWaitResult_completed :: "EpollWaitResult \<Rightarrow> bool" where
  "EpollWaitResult_completed r \<longleftrightarrow> 0 \<le> epw_event_count r"

record Epoll =
  ep_fd :: fd

definition make_Epoll :: "'w os \<Rightarrow> 'w \<Rightarrow> Epoll \<times> 'w" where
  "make_Epoll os w =
     (case sys_epoll_create1 os EPOLL_CLOEXEC w of
        (Ok fd, w') \<Rightarrow> (\<lparr>ep_fd = fd\<rparr>, w')
      | (Fail e, w') \<Rightarrow> (\<lparr>ep_fd = -1\<rparr>, w'))"

definition epoll_valid :: "Epoll \<Rightarrow> bool" where
  "epoll_valid ep \<longleftrightarrow> 0 \<le> ep_fd ep"

definition epoll_destroy :: "'w os \<Rightarrow> Epoll \<Rightarrow> 'w \<Rightarrow> 'w" where
  "epoll_destroy os ep w = (if epoll_valid ep then sys_close os (ep_fd ep) w else w)"

definition epoll_move :: "Epoll \<Rightarrow> Epoll \<times> Epoll" where
  "epoll_move other = (\<lparr>ep_fd = ep_fd other\<rparr>, other\<lparr>ep_fd := -1\<rparr>)"

definition epoll_assign :: "'w os \<Rightarrow> Epoll \<Rightarrow> Epoll \<Rightarrow> 'w \<Rightarrow> Epoll \<times> Epoll \<times> 'w" where
  "epoll_assign os this other w =
     (let w' = (if epoll_valid this then sys_close os (ep_fd this) w else w)
      in (this\<lparr>ep_fd := ep_fd other\<rparr>, other\<lparr>ep_fd := -1\<rparr>, w'))"

section \<open>Registration\<close>

definition controlEpoll ::
  "'w os \<Rightarrow> fd \<Rightarrow> epoll_op \<Rightarrow> fd \<Rightarrow> u32 \<Rightarrow> 'w \<Rightarrow> EpollOperationResult \<times> 'w" where
  "controlEpoll os epoll_fd operation watched_fd events w =
     (let event = \<lparr>ev_events = events, ev_data_fd = watched_fd\<rparr>;
          event_pointer = (if operation = EPOLL_CTL_DEL then None else Some event)
      in case sys_epoll_ctl os epoll_fd operation watched_fd event_pointer w of
           (Fail error_number, w') \<Rightarrow>
             (\<lparr>epo_success = False, epo_error_number = error_number\<rparr>, w')
         | (Ok _, w') \<Rightarrow> (\<lparr>epo_success = True, epo_error_number = 0\<rparr>, w'))"

definition epoll_add :: "'w os \<Rightarrow> Epoll \<Rightarrow> fd \<Rightarrow> u32 \<Rightarrow> 'w \<Rightarrow> EpollOperationResult \<times> 'w" where
  "epoll_add os ep watched_fd events w =
     (if \<not> epoll_valid ep \<or> watched_fd < 0 then
        (\<lparr>epo_success = False, epo_error_number = EBADF\<rparr>, w)
      else controlEpoll os (ep_fd ep) EPOLL_CTL_ADD watched_fd events w)"

definition epoll_modify :: "'w os \<Rightarrow> Epoll \<Rightarrow> fd \<Rightarrow> u32 \<Rightarrow> 'w \<Rightarrow> EpollOperationResult \<times> 'w" where
  "epoll_modify os ep watched_fd events w =
     (if \<not> epoll_valid ep \<or> watched_fd < 0 then
        (\<lparr>epo_success = False, epo_error_number = EBADF\<rparr>, w)
      else controlEpoll os (ep_fd ep) EPOLL_CTL_MOD watched_fd events w)"

definition epoll_remove :: "'w os \<Rightarrow> Epoll \<Rightarrow> fd \<Rightarrow> 'w \<Rightarrow> EpollOperationResult \<times> 'w" where
  "epoll_remove os ep watched_fd w =
     (if \<not> epoll_valid ep \<or> watched_fd < 0 then
        (\<lparr>epo_success = False, epo_error_number = EBADF\<rparr>, w)
      else controlEpoll os (ep_fd ep) EPOLL_CTL_DEL watched_fd 0 w)"

section \<open>Waiting\<close>

text \<open>One iteration of the \<open>do ... while\<close> loop and the code after it.\<close>

definition wait_body ::
  "'w os \<Rightarrow> fd \<Rightarrow> epoll_event list \<Rightarrow> int \<Rightarrow> 'w \<Rightarrow>
     'w + EpollWaitResult \<times> epoll_event list \<times> 'w" where
  "wait_body os fd events timeout_ms w =
     (case sys_epoll_wait os fd (length events) timeout_ms w of
        (Fail error_number, w') \<Rightarrow>
          if error_number = EINTR then Inl w'
          else Inr (\<lparr>epw_event_count = -1, epw_error_number = error_number\<rparr>, events, w')
      | (Ok evs, w') \<Rightarrow>
          Inr (\<lparr>epw_event_count = int (length evs), epw_error_number = 0\<rparr>,
               overwrite events 0 evs, w'))"

definition epoll_wait ::
  "'w os \<Rightarrow> Epoll \<Rightarrow> epoll_event list \<Rightarrow> int \<Rightarrow> 'w \<Rightarrow>
     (EpollWaitResult \<times> epoll_event list \<times> 'w) option" where
  "epoll_wait os ep events timeout_ms w =
     (if \<not> epoll_valid ep then
        Some (\<lparr>epw_event_count = -1, epw_error_number = EBADF\<rparr>, events, w)
      else if events = [] \<or> 2 ^ 31 - 1 < length events then
        Some (\<lparr>epw_event_count = -1, epw_error_number = EINVAL\<rparr>, events, w)
      else loop (wait_body os (ep_fd ep) events timeout_ms) w)"

section \<open>setNonBlocking\<close>

record NonBlockingResult =
  nb_success :: bool
  nb_error_number :: errno

definition setNonBlocking :: "'w os \<Rightarrow> fd \<Rightarrow> 'w \<Rightarrow> NonBlockingResult \<times> 'w" where
  "setNonBlocking os fd w =
     (case sys_fcntl_getfl os fd w of
        (Fail error_number, w1) \<Rightarrow>
          (\<lparr>nb_success = False, nb_error_number = error_number\<rparr>, w1)
      | (Ok current_flags, w1) \<Rightarrow>
          if current_flags AND O_NONBLOCK \<noteq> 0 then
            (\<lparr>nb_success = True, nb_error_number = 0\<rparr>, w1)
          else
            (case sys_fcntl_setfl os fd (current_flags OR O_NONBLOCK) w1 of
               (Fail error_number, w2) \<Rightarrow>
                 (\<lparr>nb_success = False, nb_error_number = error_number\<rparr>, w2)
             | (Ok _, w2) \<Rightarrow> (\<lparr>nb_success = True, nb_error_number = 0\<rparr>, w2)))"

section \<open>Ownership\<close>

lemmas epoll_handle_defs = epoll_valid_def epoll_destroy_def epoll_move_def epoll_assign_def
  close_if_valid_def

interpretation ep: owned_descriptor ep_fd epoll_move epoll_assign epoll_destroy
  by unfold_locales (auto simp: epoll_handle_defs Let_def split: if_splits)

section \<open>The interest list\<close>

text \<open>
  \<open>epoll_ctl(2)\<close> on the instance \<open>epfd\<close>, whose interest list is \<open>interest\<close>: adding needs
  an absent entry, modifying and deleting a present one; a failing call changes nothing;
  and closing a descriptor takes it off the list.
\<close>

definition epoll_contract :: "'w os \<Rightarrow> fd \<Rightarrow> ('w \<Rightarrow> fd \<rightharpoonup> u32) \<Rightarrow> bool" where
  "epoll_contract os epfd interest \<longleftrightarrow>
     (\<forall>fd ev w w'. sys_epoll_ctl os epfd EPOLL_CTL_ADD fd (Some ev) w = (Ok (), w') \<longrightarrow>
        interest w fd = None \<and> interest w' = (interest w)(fd \<mapsto> ev_events ev))
   \<and> (\<forall>fd ev w w'. sys_epoll_ctl os epfd EPOLL_CTL_MOD fd (Some ev) w = (Ok (), w') \<longrightarrow>
        interest w fd \<noteq> None \<and> interest w' = (interest w)(fd \<mapsto> ev_events ev))
   \<and> (\<forall>fd ev w w'. sys_epoll_ctl os epfd EPOLL_CTL_DEL fd ev w = (Ok (), w') \<longrightarrow>
        interest w fd \<noteq> None \<and> interest w' = (interest w)(fd := None))
   \<and> (\<forall>op fd ev w e w'. sys_epoll_ctl os epfd op fd ev w = (Fail e, w') \<longrightarrow> interest w' = interest w)
   \<and> (\<forall>fd w. interest (sys_close os fd w) = (interest w)(fd := None))"

lemma epoll_contractD [os_contracts]:
  assumes "epoll_contract os epfd interest"
  shows "sys_epoll_ctl os epfd EPOLL_CTL_ADD fd (Some ev) w = (Ok (), w') \<Longrightarrow>
      interest w fd = None \<and> interest w' = (interest w)(fd \<mapsto> ev_events ev)"
    and "sys_epoll_ctl os epfd EPOLL_CTL_MOD fd (Some ev) w = (Ok (), w') \<Longrightarrow>
      interest w fd \<noteq> None \<and> interest w' = (interest w)(fd \<mapsto> ev_events ev)"
    and "sys_epoll_ctl os epfd EPOLL_CTL_DEL fd evo w = (Ok (), w') \<Longrightarrow>
      interest w fd \<noteq> None \<and> interest w' = (interest w)(fd := None)"
    and "sys_epoll_ctl os epfd op fd evo w = (Fail e, w') \<Longrightarrow> interest w' = interest w"
    and "interest (sys_close os fd w) = (interest w)(fd := None)"
  using assms unfolding epoll_contract_def by simp_all

lemma epoll_add_post:
  assumes "epoll_contract os (ep_fd ep) interest" and "epoll_add os ep fd events w = (r, w')"
  shows "interest w' = (if epo_success r then (interest w)(fd \<mapsto> events) else interest w)"
    and "epo_success r \<Longrightarrow> interest w fd = None \<and> 0 \<le> fd"
  using assms(2) epoll_contractD [OF assms(1)]
  by (auto simp: epoll_add_def controlEpoll_def Let_def split: if_splits prod.splits sys_ret.splits)

lemma epoll_modify_post:
  assumes "epoll_contract os (ep_fd ep) interest" and "epoll_modify os ep fd events w = (r, w')"
  shows "interest w' = (if epo_success r then (interest w)(fd \<mapsto> events) else interest w)"
    and "epo_success r \<Longrightarrow> interest w fd \<noteq> None \<and> 0 \<le> fd"
  using assms(2) epoll_contractD [OF assms(1)]
  by (auto simp: epoll_modify_def controlEpoll_def Let_def split: if_splits prod.splits sys_ret.splits)

lemma epoll_remove_post:
  assumes "epoll_contract os (ep_fd ep) interest" and "epoll_remove os ep fd w = (r, w')"
  shows "interest w' = (if epo_success r then (interest w)(fd := None) else interest w)"
  using assms(2) epoll_contractD [OF assms(1)]
  by (auto simp: epoll_remove_def controlEpoll_def Let_def split: if_splits prod.splits sys_ret.splits)

section \<open>What wait returns\<close>

text \<open>\<open>epoll_wait(2)\<close> stores at most \<open>maxevents\<close> events, and is interrupted finitely often.\<close>

definition epoll_wait_contract :: "'w os \<Rightarrow> fd \<Rightarrow> bool" where
  "epoll_wait_contract os epfd \<longleftrightarrow>
     (\<forall>n timeout w evs w'. sys_epoll_wait os epfd n timeout w = (Ok evs, w') \<longrightarrow> length evs \<le> n)"

definition epoll_wait_interrupts_end :: "'w os \<Rightarrow> fd \<Rightarrow> ('w \<Rightarrow> nat) \<Rightarrow> bool" where
  "epoll_wait_interrupts_end os epfd m \<longleftrightarrow>
     (\<forall>n timeout w w'. sys_epoll_wait os epfd n timeout w = (Fail EINTR, w') \<longrightarrow> m w' < m w)"

lemma epoll_wait_contractD [os_contracts]:
  "epoll_wait_contract os epfd \<Longrightarrow> sys_epoll_wait os epfd n timeout w = (Ok evs, w') \<Longrightarrow> length evs \<le> n"
  unfolding epoll_wait_contract_def by blast

lemma epoll_wait_post:
  assumes os: "epoll_wait_contract os (ep_fd ep)"
    and ret: "epoll_wait os ep events timeout w = Some (r, events', w')"
  shows "length events' = length events \<and> epw_event_count r \<le> int (length events)
    \<and> (EpollWaitResult_completed r \<longrightarrow> epw_error_number r = 0 \<and>
         (\<exists>evs v. sys_epoll_wait os (ep_fd ep) (length events) timeout v = (Ok evs, w')
            \<and> epw_event_count r = int (length evs) \<and> take (length evs) events' = evs))
    \<and> (\<not> EpollWaitResult_completed r \<longrightarrow> epw_event_count r = -1 \<and> epw_error_number r \<noteq> EINTR)"
proof -
  let ?Q = "\<lambda>(r, events', w'). length events' = length events \<and> epw_event_count r \<le> int (length events)
    \<and> (EpollWaitResult_completed r \<longrightarrow> epw_error_number r = 0 \<and>
         (\<exists>evs v. sys_epoll_wait os (ep_fd ep) (length events) timeout v = (Ok evs, w')
            \<and> epw_event_count r = int (length evs) \<and> take (length evs) events' = evs))
    \<and> (\<not> EpollWaitResult_completed r \<longrightarrow> epw_event_count r = -1 \<and> epw_error_number r \<noteq> EINTR)"
  have "?Q (r, events', w')"
  proof (cases "epoll_valid ep \<and> events \<noteq> [] \<and> length events \<le> 2 ^ 31 - 1")
    case True
    then have "loop (wait_body os (ep_fd ep) events timeout) w = Some (r, events', w')"
      using ret by (simp add: epoll_wait_def split: if_splits)
    then show ?thesis
    proof (rule loop_rule [where I = "\<lambda>_. True"])
      fix u q assume "wait_body os (ep_fd ep) events timeout u = Inr q"
      then show "?Q q"
        by (auto simp: wait_body_def EpollWaitResult_completed_def overwrite_def
            split: prod.splits sys_ret.splits if_splits dest: epoll_wait_contractD [OF os])
    qed simp_all
  next
    case False
    with ret show ?thesis
      by (auto simp: epoll_wait_def EpollWaitResult_completed_def split: if_splits)
  qed
  then show ?thesis by simp
qed

lemma epoll_wait_returns:
  assumes "epoll_wait_interrupts_end os (ep_fd ep) m"
  shows "\<exists>r events' w'. epoll_wait os ep events timeout w = Some (r, events', w')"
proof -
  have "\<exists>q. loop (wait_body os (ep_fd ep) events timeout) w = Some q"
    by (rule loop_terminates [where I = "\<lambda>_. True" and R = "measure m"])
      (use assms in \<open>auto simp: wait_body_def epoll_wait_interrupts_end_def
        split: prod.splits sys_ret.splits if_splits\<close>)
  then show ?thesis by (auto simp: epoll_wait_def)
qed

section \<open>What setNonBlocking establishes\<close>

text \<open>
  \<open>fcntl(2)\<close>: \<open>F_GETFL\<close> reads the file status flags (\<open>flags\<close>) of a descriptor and \<open>F_SETFL\<close>
  sets them.
\<close>

definition fcntl_contract :: "'w os \<Rightarrow> (fd \<Rightarrow> 'w \<Rightarrow> u32) \<Rightarrow> bool" where
  "fcntl_contract os flags \<longleftrightarrow>
     (\<forall>fd w f w'. sys_fcntl_getfl os fd w = (Ok f, w') \<longrightarrow> f = flags fd w \<and> flags fd w' = flags fd w)
   \<and> (\<forall>fd w f w'. sys_fcntl_setfl os fd f w = (Ok (), w') \<longrightarrow> flags fd w' = f)"

lemma or_nonblock:
  assumes "f AND O_NONBLOCK \<noteq> 0"
  shows "f OR O_NONBLOCK = f"
proof -
  define m :: nat where "m = 11"
  have n: "O_NONBLOCK = push_bit m 1" by (simp add: m_def)
  have "bit f m"
  proof (rule ccontr)
    assume "\<not> bit f m"
    then have "f AND push_bit m 1 = 0" by (auto intro!: bit_word_eqI simp: bit_simps bit_1_iff)
    with assms n show False by simp
  qed
  then have "f OR push_bit m 1 = f" by (auto intro!: bit_word_eqI simp: bit_simps bit_1_iff)
  with n show ?thesis by simp
qed

lemma setNonBlocking_post:
  assumes "fcntl_contract os flags" and "setNonBlocking os fd w = (r, w')" and "nb_success r"
  shows "flags fd w' = flags fd w OR O_NONBLOCK"
  using assms or_nonblock unfolding fcntl_contract_def setNonBlocking_def
  by (auto split: prod.splits sys_ret.splits if_splits)

section \<open>Properties\<close>

lemma epoll_wait_reports_facts:
  assumes "epoll_wait_contract os (ep_fd ep)" and "epoll_wait_interrupts_end os (ep_fd ep) m"
  shows "\<exists>r events' w'. epoll_wait os ep events timeout w = Some (r, events', w')
      \<and> length events' = length events
      \<and> (if EpollWaitResult_completed r
         then epw_error_number r = 0 \<and> nat (epw_event_count r) \<le> length events
           \<and> (\<exists>evs v. sys_epoll_wait os (ep_fd ep) (length events) timeout v = (Ok evs, w')
                \<and> take (nat (epw_event_count r)) events' = evs)
         else epw_event_count r = -1 \<and> epw_error_number r \<noteq> EINTR)"
    and "\<not> epoll_valid ep \<Longrightarrow> epoll_wait os ep events timeout w =
      Some (\<lparr>epw_event_count = -1, epw_error_number = EBADF\<rparr>, events, w)"
    and "epoll_valid ep \<Longrightarrow> epoll_wait os ep [] timeout w =
      Some (\<lparr>epw_event_count = -1, epw_error_number = EINVAL\<rparr>, [], w)"
proof -
  obtain r events' w' where ret: "epoll_wait os ep events timeout w = Some (r, events', w')"
    using epoll_wait_returns [OF assms(2)] by blast
  from epoll_wait_post [OF assms(1) ret] ret
  show "\<exists>r events' w'. epoll_wait os ep events timeout w = Some (r, events', w')
      \<and> length events' = length events
      \<and> (if EpollWaitResult_completed r
         then epw_error_number r = 0 \<and> nat (epw_event_count r) \<le> length events
           \<and> (\<exists>evs v. sys_epoll_wait os (ep_fd ep) (length events) timeout v = (Ok evs, w')
                \<and> take (nat (epw_event_count r)) events' = evs)
         else epw_event_count r = -1 \<and> epw_error_number r \<noteq> EINTR)"
    by auto
qed (simp_all add: epoll_wait_def)

text \<open>C31: \<open>Epoll::wait\<close> returns whenever signals interrupt it finitely often. It never reports
  an interruption; a result that is \<open>completed\<close> has no error and counts at most as many
  events as the caller's array holds, all of which it has stored; any other result has
  the count -1. An invalid instance and an empty array are refused without a system call.\<close>

theorem epoll_wait_reports:
  assumes "epoll_wait_contract os (ep_fd ep)" and "epoll_wait_interrupts_end os (ep_fd ep) m"
  shows "(\<exists>r events' w'. epoll_wait os ep events timeout w = Some (r, events', w')
      \<and> length events' = length events
      \<and> (if EpollWaitResult_completed r
         then epw_error_number r = 0 \<and> nat (epw_event_count r) \<le> length events
           \<and> (\<exists>evs v. sys_epoll_wait os (ep_fd ep) (length events) timeout v = (Ok evs, w')
                \<and> take (nat (epw_event_count r)) events' = evs)
         else epw_event_count r = -1 \<and> epw_error_number r \<noteq> EINTR))
    \<and> (\<not> epoll_valid ep \<longrightarrow> epoll_wait os ep events timeout w =
      Some (\<lparr>epw_event_count = -1, epw_error_number = EBADF\<rparr>, events, w))
    \<and> (epoll_valid ep \<longrightarrow> epoll_wait os ep [] timeout w =
      Some (\<lparr>epw_event_count = -1, epw_error_number = EINVAL\<rparr>, [], w))"
  using epoll_wait_reports_facts [OF assms] by blast

lemma sample_epoll_wait_contract: "epoll_wait_contract sample_os fd"
  by (auto simp: epoll_wait_contract_def sample_os_def interruptible_def split: if_splits)

lemma sample_epoll_wait_interrupts: "epoll_wait_interrupts_end sample_os fd k_intr"
  by (auto simp: epoll_wait_interrupts_end_def sample_os_def interruptible_def split: if_splits)

lemma sample_epoll_contract: "epoll_contract sample_os fd k_interest"
  by (auto simp: epoll_contract_def sample_os_def split: if_splits option.splits epoll_op.splits)

theorem epoll_wait_reports_witness:
  "\<exists>r events' w'. epoll_wait sample_os \<lparr>ep_fd = 3\<rparr> [\<lparr>ev_events = 0, ev_data_fd = 0\<rparr>] (-1) sample_world
     = Some (r, events', w') \<and> length events' = 1"
  using epoll_wait_reports [OF sample_epoll_wait_contract sample_epoll_wait_interrupts,
      of "\<lparr>ep_fd = 3\<rparr>" "[\<lparr>ev_events = 0, ev_data_fd = 0\<rparr>]" "-1" sample_world]
  by fastforce

lemma setNonBlocking_sound_facts:
  assumes "fcntl_contract os flags" and "setNonBlocking os fd w = (r, w')"
  shows "nb_success r \<Longrightarrow> flags fd w' = flags fd w OR O_NONBLOCK"
    and "sys_fcntl_getfl os fd w = (Fail en, w1) \<Longrightarrow> r = \<lparr>nb_success = False, nb_error_number = en\<rparr>"
    and "sys_fcntl_getfl os fd w = (Ok f, w1) \<Longrightarrow> f AND O_NONBLOCK = 0 \<Longrightarrow>
      sys_fcntl_setfl os fd (f OR O_NONBLOCK) w1 = (Fail en, w2) \<Longrightarrow>
      r = \<lparr>nb_success = False, nb_error_number = en\<rparr>"
  using setNonBlocking_post [OF assms] assms(2) by (auto simp: setNonBlocking_def)

text \<open>C32: When \<open>setNonBlocking\<close> reports success the flags of the descriptor are those it had with
  \<open>O_NONBLOCK\<close> added and nothing else changed; when a system call fails it reports that
  call's error number.\<close>

theorem setNonBlocking_sound:
  assumes "fcntl_contract os flags" and "setNonBlocking os fd w = (r, w')"
  shows "(nb_success r \<longrightarrow> flags fd w' = flags fd w OR O_NONBLOCK)
    \<and> (\<forall>en w1. sys_fcntl_getfl os fd w = (Fail en, w1) \<longrightarrow> r = \<lparr>nb_success = False, nb_error_number = en\<rparr>)
    \<and> (\<forall>f w1 en w2. sys_fcntl_getfl os fd w = (Ok f, w1) \<longrightarrow> f AND O_NONBLOCK = 0 \<longrightarrow>
      sys_fcntl_setfl os fd (f OR O_NONBLOCK) w1 = (Fail en, w2) \<longrightarrow>
      r = \<lparr>nb_success = False, nb_error_number = en\<rparr>)"
  using setNonBlocking_sound_facts [OF assms] by blast

theorem setNonBlocking_sound_witness:
  "k_flags (sample_world\<lparr>k_flags := (k_flags sample_world)(7 := O_NONBLOCK)\<rparr>) 7 = k_flags sample_world 7 OR O_NONBLOCK"
proof -
  have f: "fcntl_contract sample_os (\<lambda>fd k. k_flags k fd)"
    by (auto simp: fcntl_contract_def sample_os_def)
  have s: "setNonBlocking sample_os 7 sample_world = (\<lparr>nb_success = True, nb_error_number = 0\<rparr>,
      sample_world\<lparr>k_flags := (k_flags sample_world)(7 := O_NONBLOCK)\<rparr>)"
    by (simp add: setNonBlocking_def sample_os_def sample_world_def)
  show ?thesis using setNonBlocking_sound [OF f s] by simp
qed

end
