(* ===== verification/Bounded_Queue.thy ===== *)
theory Bounded_Queue
  imports Netpulse_Prelude
begin

text \<open>
  The bounded task queue: \<open>include/netpulse/concurrency/bounded_queue.hpp\<close>. Each
  definition is the critical section of one member function, executed under the queue's
  mutex and therefore atomic. Waiting on the condition variable and its notifications
  concern the threads that use the queue and are modelled with the thread pool.
\<close>

section \<open>State and operations\<close>

datatype QueuePushStatus = push_Success | push_Full | push_Closed

text \<open>What a \<open>std::invalid_argument\<close> or a failing thread start leaves to the caller.\<close>

datatype cxx_exception = invalid_argument string | system_error

record 'a BoundedQueue =
  bq_capacity :: nat
  bq_queue :: "'a list"
  bq_closed :: bool

definition make_BoundedQueue :: "nat \<Rightarrow> cxx_exception + 'a BoundedQueue" where
  "make_BoundedQueue capacity =
     (if capacity = 0 then
        Inl (invalid_argument ''BoundedQueue capacity must be greater than zero'')
      else Inr \<lparr>bq_capacity = capacity, bq_queue = [], bq_closed = False\<rparr>)"

definition tryPush :: "'a \<Rightarrow> 'a BoundedQueue \<Rightarrow> QueuePushStatus \<times> 'a BoundedQueue" where
  "tryPush value q =
     (if bq_closed q then (push_Closed, q)
      else if bq_capacity q \<le> length (bq_queue q) then (push_Full, q)
      else (push_Success, q\<lparr>bq_queue := bq_queue q @ [value]\<rparr>))"

text \<open>
  \<open>waitPop\<close> from the point where the thread holds the mutex: \<open>PopBlocked\<close> when the wait
  predicate is false, so that the thread goes to sleep on the condition variable;
  \<open>PopNullopt\<close> for \<open>std::nullopt\<close>.
\<close>

datatype 'a PopResult = PopBlocked | PopNullopt | PopValue 'a

definition waitPop :: "'a BoundedQueue \<Rightarrow> 'a PopResult \<times> 'a BoundedQueue" where
  "waitPop q =
     (if \<not> (bq_closed q \<or> bq_queue q \<noteq> []) then (PopBlocked, q)
      else if bq_queue q = [] then (PopNullopt, q)
      else (PopValue (hd (bq_queue q)), q\<lparr>bq_queue := tl (bq_queue q)\<rparr>))"

definition bq_close :: "'a BoundedQueue \<Rightarrow> 'a BoundedQueue" where
  "bq_close q = q\<lparr>bq_closed := True\<rparr>"

definition bq_size :: "'a BoundedQueue \<Rightarrow> nat" where
  "bq_size q = length (bq_queue q)"

section \<open>The interface of a bounded queue\<close>

datatype 'a queue_op = Push 'a | Pop | Close

text \<open>
  A run of operations: the values accepted and the values handed out, each in order, and
  the final queue. An operation that would block leaves no trace, as in the source.
\<close>

fun queue_run ::
  "('a \<Rightarrow> 'q \<Rightarrow> QueuePushStatus \<times> 'q) \<Rightarrow> ('q \<Rightarrow> 'a PopResult \<times> 'q) \<Rightarrow> ('q \<Rightarrow> 'q)
     \<Rightarrow> 'a queue_op list \<Rightarrow> 'q \<Rightarrow> 'a list \<times> 'a list \<times> 'q" where
  "queue_run push pop shut [] q = ([], [], q)"
| "queue_run push pop shut (Push v # ops) q =
     (case push v q of (st, q1) \<Rightarrow>
        (case queue_run push pop shut ops q1 of (acc, out, q2) \<Rightarrow>
           (if st = push_Success then v # acc else acc, out, q2)))"
| "queue_run push pop shut (Pop # ops) q =
     (case pop q of (r, q1) \<Rightarrow>
        (case queue_run push pop shut ops q1 of (acc, out, q2) \<Rightarrow>
           (acc, (case r of PopValue v \<Rightarrow> v # out | _ \<Rightarrow> out), q2)))"
| "queue_run push pop shut (Close # ops) q = queue_run push pop shut ops (shut q)"

locale bounded_fifo =
  fixes contents :: "'q \<Rightarrow> 'a list"
    and capacity :: "'q \<Rightarrow> nat"
    and closed :: "'q \<Rightarrow> bool"
    and push :: "'a \<Rightarrow> 'q \<Rightarrow> QueuePushStatus \<times> 'q"
    and pop :: "'q \<Rightarrow> 'a PopResult \<times> 'q"
    and shut :: "'q \<Rightarrow> 'q"
  assumes push_closed: "closed q \<Longrightarrow> push v q = (push_Closed, q)"
    and push_full: "\<not> closed q \<Longrightarrow> capacity q \<le> length (contents q) \<Longrightarrow> push v q = (push_Full, q)"
    and push_open: "\<not> closed q \<Longrightarrow> length (contents q) < capacity q \<Longrightarrow>
      \<exists>q'. push v q = (push_Success, q') \<and> contents q' = contents q @ [v]
        \<and> capacity q' = capacity q \<and> \<not> closed q'"
    and pop_value: "contents q = v # vs \<Longrightarrow>
      \<exists>q'. pop q = (PopValue v, q') \<and> contents q' = vs \<and> capacity q' = capacity q
        \<and> closed q' = closed q"
    and pop_empty: "contents q = [] \<Longrightarrow> pop q = (if closed q then PopNullopt else PopBlocked, q)"
    and shut_contents: "contents (shut q) = contents q"
    and shut_capacity: "capacity (shut q) = capacity q"
    and shut_closed: "closed (shut q)"
begin

lemma push_cases:
  obtains (accepted) q' where "push v q = (push_Success, q')" "contents q' = contents q @ [v]"
      "capacity q' = capacity q" "\<not> closed q'" "\<not> closed q" "length (contents q) < capacity q"
  | (refused) st where "push v q = (st, q)" "st \<noteq> push_Success"
proof (cases "closed q")
  case True
  then show ?thesis using push_closed refused by blast
next
  case False
  show ?thesis
  proof (cases "length (contents q) < capacity q")
    case True
    with False push_open [of q v] show ?thesis using accepted by blast
  next
    case full: False
    with False push_full [of q v] show ?thesis using refused by auto
  qed
qed

lemma run_fifo:
  "queue_run push pop shut ops q = (acc, out, q') \<Longrightarrow> contents q @ acc = out @ contents q'"
proof (induction ops arbitrary: q acc out)
  case Nil
  then show ?case by simp
next
  case (Cons op ops)
  show ?case
  proof (cases op)
    case (Push v)
    obtain acc1 out1 where rec: "queue_run push pop shut ops (snd (push v q)) = (acc1, out1, q')"
      and eq: "acc = (if fst (push v q) = push_Success then v # acc1 else acc1)" "out = out1"
      using Cons.prems Push by (auto split: prod.splits)
    show ?thesis
      using Cons.IH [OF rec] eq by (cases q rule: push_cases [of v]) auto
  next
    case Pop
    obtain acc1 out1 where rec: "queue_run push pop shut ops (snd (pop q)) = (acc1, out1, q')"
      and eq: "acc = acc1" "out = (case fst (pop q) of PopValue v \<Rightarrow> v # out1 | _ \<Rightarrow> out1)"
      using Cons.prems Pop by (auto split: prod.splits)
    show ?thesis
    proof (cases "contents q")
      case Nil
      with Cons.IH [OF rec] eq pop_empty show ?thesis by (simp split: if_splits)
    next
      case (Cons v vs)
      from pop_value [OF this] obtain q1 where "pop q = (PopValue v, q1)" "contents q1 = vs" by blast
      with Cons.IH [OF rec] eq Cons show ?thesis by simp
    qed
  next
    case Close
    with Cons.prems Cons.IH [of "shut q" acc out] shut_contents show ?thesis by simp
  qed
qed

lemma run_bounded:
  "queue_run push pop shut ops q = (acc, out, q') \<Longrightarrow> length (contents q) \<le> capacity q \<Longrightarrow>
     length (contents q') \<le> capacity q' \<and> capacity q' = capacity q"
proof (induction ops arbitrary: q acc out)
  case Nil
  then show ?case by simp
next
  case (Cons op ops)
  show ?case
  proof (cases op)
    case (Push v)
    obtain acc1 out1 where rec: "queue_run push pop shut ops (snd (push v q)) = (acc1, out1, q')"
      using Cons.prems Push by (auto split: prod.splits)
    show ?thesis
      using Cons.IH [OF rec] Cons.prems(2) by (cases q rule: push_cases [of v]) auto
  next
    case Pop
    obtain acc1 out1 where rec: "queue_run push pop shut ops (snd (pop q)) = (acc1, out1, q')"
      using Cons.prems Pop by (auto split: prod.splits)
    show ?thesis
    proof (cases "contents q")
      case Nil
      with Cons.IH [OF rec] Cons.prems(2) pop_empty show ?thesis by simp
    next
      case (Cons v vs)
      from pop_value [OF this] obtain q1 where "pop q = (PopValue v, q1)" "contents q1 = vs"
        "capacity q1 = capacity q" by blast
      with Cons.IH [OF rec] Cons.prems(2) Cons show ?thesis by simp
    qed
  next
    case Close
    with Cons.prems Cons.IH [of "shut q" acc out] shut_contents shut_capacity show ?thesis by simp
  qed
qed

lemma run_closed:
  "closed q \<Longrightarrow> queue_run push pop shut ops q = (acc, out, q') \<Longrightarrow> acc = [] \<and> closed q'"
proof (induction ops arbitrary: q acc out)
  case Nil
  then show ?case by simp
next
  case (Cons op ops)
  show ?case
  proof (cases op)
    case (Push v)
    with Cons push_closed [of q v] show ?thesis by (auto split: prod.splits)
  next
    case Pop
    have "closed (snd (pop q))"
      using Cons.prems(1) pop_value [of q] pop_empty [of q] by (cases "contents q") auto
    with Cons Pop show ?thesis by (auto split: prod.splits)
  next
    case Close
    with Cons shut_closed show ?thesis by auto
  qed
qed

end

section \<open>BoundedQueue provides the interface\<close>

lemmas bounded_queue_defs = tryPush_def waitPop_def bq_close_def

interpretation bq: bounded_fifo bq_queue bq_capacity bq_closed tryPush waitPop bq_close
  by unfold_locales (auto simp: bounded_queue_defs)

section \<open>Properties\<close>

lemma bounded_queue_fifo_facts:
  assumes "make_BoundedQueue cap = Inr q0"
    and "queue_run tryPush waitPop bq_close ops q0 = (accepted, popped, q)"
  shows "accepted = popped @ bq_queue q" and "bq_size q \<le> cap"
proof -
  from assms(1) have q0: "bq_queue q0 = []" "bq_capacity q0 = cap"
    by (auto simp: make_BoundedQueue_def split: if_splits)
  show "accepted = popped @ bq_queue q" using bq.run_fifo [OF assms(2)] q0 by simp
  show "bq_size q \<le> cap" using bq.run_bounded [OF assms(2)] q0 by (simp add: bq_size_def)
qed

text \<open>C26: For every sequence of \<open>tryPush\<close>, \<open>waitPop\<close> and \<open>close\<close> on a newly constructed
  queue: the values handed out followed by the values still queued are the values
  accepted, in order; and the queue never holds more than its capacity.\<close>

theorem bounded_queue_fifo:
  assumes "make_BoundedQueue cap = Inr q0"
    and "queue_run tryPush waitPop bq_close ops q0 = (accepted, popped, q)"
  shows "accepted = popped @ bq_queue q \<and> bq_size q \<le> cap"
  using bounded_queue_fifo_facts [OF assms] by blast

theorem bounded_queue_fifo_witness:
  "make_BoundedQueue 1 = Inr \<lparr>bq_capacity = 1, bq_queue = [], bq_closed = False\<rparr>
   \<and> queue_run tryPush waitPop bq_close [Push 5, Push 6, Pop, Push (7 :: nat)]
       \<lparr>bq_capacity = 1, bq_queue = [], bq_closed = False\<rparr>
     = ([5, 7], [5], \<lparr>bq_capacity = 1, bq_queue = [7], bq_closed = False\<rparr>)
   \<and> [5, 7] = [5] @ [7 :: nat]"
proof -
  have m: "make_BoundedQueue 1 = Inr \<lparr>bq_capacity = 1, bq_queue = [], bq_closed = False\<rparr>"
    by (simp add: make_BoundedQueue_def)
  have r: "queue_run tryPush waitPop bq_close [Push 5, Push 6, Pop, Push (7 :: nat)]
       \<lparr>bq_capacity = 1, bq_queue = [], bq_closed = False\<rparr>
     = ([5, 7], [5], \<lparr>bq_capacity = 1, bq_queue = [7], bq_closed = False\<rparr>)"
    by (simp add: bounded_queue_defs)
  show ?thesis using bounded_queue_fifo [OF m r] m r by simp
qed

text \<open>C27: Closing a queue is final and loses nothing: from then on every push is refused with
  \<open>Closed\<close>, whatever else is called, and every value that was queued is still handed out
  in order before a consumer is told that there is none.\<close>

theorem bounded_queue_close_drains:
  "fst (tryPush v (snd (snd (queue_run tryPush waitPop bq_close ops (bq_close q))))) = push_Closed
   \<and> queue_run tryPush waitPop bq_close (replicate (bq_size q) Pop) (bq_close q)
       = ([], bq_queue q, (bq_close q)\<lparr>bq_queue := []\<rparr>)
   \<and> waitPop ((bq_close q)\<lparr>bq_queue := []\<rparr>) = (PopNullopt, (bq_close q)\<lparr>bq_queue := []\<rparr>)"
proof (intro conjI)
  obtain acc out q' where r: "queue_run tryPush waitPop bq_close ops (bq_close q) = (acc, out, q')"
    by (metis prod_cases3)
  have "bq_closed q'" using bq.run_closed [OF bq.shut_closed r] by simp
  then show "fst (tryPush v (snd (snd (queue_run tryPush waitPop bq_close ops (bq_close q))))) = push_Closed"
    by (simp add: r tryPush_def)
  have "queue_run tryPush waitPop bq_close (replicate (length (bq_queue q)) Pop) q = ([], bq_queue q, q\<lparr>bq_queue := []\<rparr>)"
    if "bq_closed q" for q :: "'a BoundedQueue"
    using that
  proof (induction "length (bq_queue q)" arbitrary: q)
    case (Suc n)
    then obtain x xs where xs: "bq_queue q = x # xs" "n = length xs" by (cases "bq_queue q") auto
    with Suc(1) [of "q\<lparr>bq_queue := xs\<rparr>"] Suc(3) show ?case by (simp add: waitPop_def)
  qed simp
  from this [of "bq_close q"] show "queue_run tryPush waitPop bq_close (replicate (bq_size q) Pop) (bq_close q)
       = ([], bq_queue q, (bq_close q)\<lparr>bq_queue := []\<rparr>)"
    by (simp add: bq_size_def bq_close_def)
qed (simp add: waitPop_def bq_close_def)

end
