(* ===== verification/Thread_Pool.thy ===== *)
theory Thread_Pool
  imports Bounded_Queue
begin

text \<open>
  The thread pool: \<open>include/netpulse/concurrency/thread_pool.hpp\<close> and
  \<open>src/concurrency/thread_pool.cpp\<close>. Its concurrency is modelled at the granularity of
  critical sections: a worker either holds no task and is about to enter the critical
  section of \<open>waitPop\<close>, sleeps on the condition variable, executes a task, or has
  returned from \<open>workerLoop\<close>. A submitter notifies the condition variable after it left
  its critical section, so the notifications still to come are part of the state.
\<close>

section \<open>State\<close>

datatype SubmitStatus = sub_Success | sub_QueueFull | sub_Stopped | sub_InvalidTask

datatype 'a Worker = Checking | Sleeping | Executing 'a | Exited

record 'a ThreadPool =
  tp_tasks :: "'a BoundedQueue"
  tp_workers :: "'a Worker list"
  tp_stopped :: bool
  tp_notify_one :: nat
  tp_notify_all :: nat

text \<open>
  A task runs in atomic stages on the state it shares with other threads: the first stage
  of \<open>t\<close> leaves the rest of the task, or the task is over because it returned or threw.
  \<open>None\<close> is a stage that never returns.
\<close>

datatype 'a stage = Continue 'a | Finished | Threw

type_synonym ('a, 's) exec = "'a \<Rightarrow> 's \<Rightarrow> ('a stage \<times> 's) option"

section \<open>Operations\<close>

text \<open>The constructor; \<open>spawn i\<close> tells whether starting the i-th thread succeeds.\<close>

definition make_ThreadPool ::
  "(nat \<Rightarrow> bool) \<Rightarrow> nat \<Rightarrow> nat \<Rightarrow> cxx_exception + 'a ThreadPool" where
  "make_ThreadPool spawn worker_count queue_capacity =
     (case make_BoundedQueue queue_capacity of
        Inl ex \<Rightarrow> Inl ex
      | Inr tasks \<Rightarrow>
          if worker_count = 0 then
            Inl (invalid_argument ''ThreadPool worker count must be greater than zero'')
          else if list_all spawn [0..<worker_count] then
            Inr \<lparr>tp_tasks = tasks, tp_workers = replicate worker_count Checking,
                 tp_stopped = False, tp_notify_one = 0, tp_notify_all = 0\<rparr>
          else Inl system_error)"

fun submit_status_of :: "QueuePushStatus \<Rightarrow> SubmitStatus" where
  "submit_status_of push_Success = sub_Success"
| "submit_status_of push_Full = sub_QueueFull"
| "submit_status_of push_Closed = sub_Stopped"

text \<open>\<open>None\<close> is an empty \<open>std::function\<close>.\<close>

definition pool_trySubmit :: "'a option \<Rightarrow> 'a ThreadPool \<Rightarrow> SubmitStatus \<times> 'a ThreadPool" where
  "pool_trySubmit task p =
     (case task of
        None \<Rightarrow> (sub_InvalidTask, p)
      | Some t \<Rightarrow>
          (case tryPush t (tp_tasks p) of
             (push_status, tasks) \<Rightarrow>
               (submit_status_of push_status,
                p\<lparr>tp_tasks := tasks,
                  tp_notify_one := tp_notify_one p + (if push_status = push_Success then 1 else 0)\<rparr>)))"

text \<open>
  \<open>stop\<close> up to the joins: the first call closes the queue. Setting the flag and closing
  the queue are one step here. Calls of \<open>stop\<close> exclude one another by \<open>stop_mutex_\<close>, and
  neither \<open>trySubmit\<close> nor the workers read the flag, so the moment between the two can be
  told only through \<open>stopped()\<close>.
\<close>

definition pool_stop :: "'a ThreadPool \<Rightarrow> 'a ThreadPool" where
  "pool_stop p =
     (if \<not> tp_stopped p then
        p\<lparr>tp_stopped := True, tp_tasks := bq_close (tp_tasks p),
          tp_notify_all := tp_notify_all p + 1\<rparr>
      else p)"

text \<open>The joins of \<open>stop\<close> are over when every worker has returned.\<close>

definition pool_joined :: "'a ThreadPool \<Rightarrow> bool" where
  "pool_joined p \<longleftrightarrow> list_all (\<lambda>w. w = Exited) (tp_workers p)"

definition pool_workerCount :: "'a ThreadPool \<Rightarrow> nat" where
  "pool_workerCount p = length (tp_workers p)"

definition pool_pendingTaskCount :: "'a ThreadPool \<Rightarrow> nat" where
  "pool_pendingTaskCount p = bq_size (tp_tasks p)"

definition pool_stopped :: "'a ThreadPool \<Rightarrow> bool" where
  "pool_stopped p = tp_stopped p"

definition set_worker :: "nat \<Rightarrow> 'a Worker \<Rightarrow> 'a ThreadPool \<Rightarrow> 'a ThreadPool" where
  "set_worker i w p = p\<lparr>tp_workers := (tp_workers p)[i := w]\<rparr>"

text \<open>
  One atomic step of \<open>workerLoop\<close> in worker \<open>i\<close>: enter \<open>waitPop\<close>'s critical section, or
  run the next stage of the task. A task that throws leaves the worker running.
\<close>

definition workerLoop_step ::
  "('a, 's) exec \<Rightarrow> nat \<Rightarrow> 'a ThreadPool \<times> 's \<Rightarrow> ('a ThreadPool \<times> 's) option" where
  "workerLoop_step exec i = (\<lambda>(p, s).
     case tp_workers p ! i of
       Checking \<Rightarrow>
         (case waitPop (tp_tasks p) of
            (PopBlocked, q) \<Rightarrow> Some (set_worker i Sleeping (p\<lparr>tp_tasks := q\<rparr>), s)
          | (PopNullopt, q) \<Rightarrow> Some (set_worker i Exited (p\<lparr>tp_tasks := q\<rparr>), s)
          | (PopValue task, q) \<Rightarrow> Some (set_worker i (Executing task) (p\<lparr>tp_tasks := q\<rparr>), s))
     | Executing task \<Rightarrow>
         (case exec task s of
            None \<Rightarrow> None
          | Some (Continue rest, s') \<Rightarrow> Some (set_worker i (Executing rest) p, s')
          | Some (Finished, s') \<Rightarrow> Some (set_worker i Checking p, s')
          | Some (Threw, s') \<Rightarrow> Some (set_worker i Checking p, s'))
     | Sleeping \<Rightarrow> None
     | Exited \<Rightarrow> None)"

text \<open>Waking one sleeper, and all of them.\<close>

definition wake_all :: "'a Worker list \<Rightarrow> 'a Worker list" where
  "wake_all ws = map (\<lambda>w. if w = Sleeping then Checking else w) ws"

section \<open>Steps of the pool\<close>

datatype 'a pool_event =
    Submit 'a SubmitStatus
  | NotifyOne "nat option"
  | Spurious nat
  | Stop
  | NotifyAll
  | Work nat

text \<open>
  \<open>NotifyOne (Some i)\<close> wakes the sleeper \<open>i\<close>; \<open>NotifyOne None\<close> finds nobody asleep. A
  condition variable may also wake a sleeper without being notified.
\<close>

inductive pool_step ::
  "('a, 's) exec \<Rightarrow> 'a ThreadPool \<times> 's \<Rightarrow> 'a pool_event \<Rightarrow> 'a ThreadPool \<times> 's \<Rightarrow> bool"
  for exec where
  submit: "pool_trySubmit (Some t) p = (st, p') \<Longrightarrow> pool_step exec (p, s) (Submit t st) (p', s)"
| notify_one: "0 < tp_notify_one p \<Longrightarrow> i < length (tp_workers p) \<Longrightarrow> tp_workers p ! i = Sleeping \<Longrightarrow>
    pool_step exec (p, s) (NotifyOne (Some i))
      (set_worker i Checking (p\<lparr>tp_notify_one := tp_notify_one p - 1\<rparr>), s)"
| notify_nobody: "0 < tp_notify_one p \<Longrightarrow> num (\<lambda>w. w = Sleeping) (tp_workers p) = 0 \<Longrightarrow>
    pool_step exec (p, s) (NotifyOne None) (p\<lparr>tp_notify_one := tp_notify_one p - 1\<rparr>, s)"
| spurious: "i < length (tp_workers p) \<Longrightarrow> tp_workers p ! i = Sleeping \<Longrightarrow>
    pool_step exec (p, s) (Spurious i) (set_worker i Checking p, s)"
| stop: "\<not> tp_stopped p \<Longrightarrow> pool_step exec (p, s) Stop (pool_stop p, s)"
| notify_all: "0 < tp_notify_all p \<Longrightarrow>
    pool_step exec (p, s) NotifyAll
      (p\<lparr>tp_notify_all := tp_notify_all p - 1, tp_workers := wake_all (tp_workers p)\<rparr>, s)"
| work: "i < length (tp_workers p) \<Longrightarrow> workerLoop_step exec i (p, s) = Some (p', s') \<Longrightarrow>
    pool_step exec (p, s) (Work i) (p', s')"

text \<open>What a step contributes: the task it accepts, starts, and the number it finishes.\<close>

definition accepted_by :: "'a pool_event \<Rightarrow> 'a list" where
  "accepted_by ev = (case ev of Submit t st \<Rightarrow> if st = sub_Success then [t] else [] | _ \<Rightarrow> [])"

definition started_by :: "'a ThreadPool \<Rightarrow> 'a pool_event \<Rightarrow> 'a ThreadPool \<Rightarrow> 'a list" where
  "started_by p ev p' =
     (case ev of
        Work i \<Rightarrow> (case (tp_workers p ! i, tp_workers p' ! i) of
                     (Checking, Executing t) \<Rightarrow> [t] | _ \<Rightarrow> [])
      | _ \<Rightarrow> [])"

definition finished_by :: "'a ThreadPool \<Rightarrow> 'a pool_event \<Rightarrow> 'a ThreadPool \<Rightarrow> nat" where
  "finished_by p ev p' =
     (case ev of
        Work i \<Rightarrow> (case (tp_workers p ! i, tp_workers p' ! i) of
                     (Executing t, Checking) \<Rightarrow> 1 | _ \<Rightarrow> 0)
      | _ \<Rightarrow> 0)"

inductive pool_run ::
  "('a, 's) exec \<Rightarrow> 'a ThreadPool \<times> 's \<Rightarrow> 'a list \<Rightarrow> 'a list \<Rightarrow> nat \<Rightarrow> 'a ThreadPool \<times> 's \<Rightarrow> bool"
  for exec c0 where
  start: "pool_run exec c0 [] [] 0 c0"
| step: "pool_run exec c0 acc sta fin (p, s) \<Longrightarrow> pool_step exec (p, s) ev (p', s') \<Longrightarrow>
    pool_run exec c0 (acc @ accepted_by ev) (sta @ started_by p ev p') (fin + finished_by p ev p')
      (p', s')"

section \<open>The invariant\<close>

abbreviation sleepers :: "'a ThreadPool \<Rightarrow> nat" where
  "sleepers p \<equiv> num (\<lambda>w. w = Sleeping) (tp_workers p)"

definition is_active :: "'a Worker \<Rightarrow> bool" where
  "is_active w \<longleftrightarrow> (case w of Checking \<Rightarrow> True | Executing _ \<Rightarrow> True | _ \<Rightarrow> False)"

abbreviation actives :: "'a ThreadPool \<Rightarrow> nat" where
  "actives p \<equiv> num is_active (tp_workers p)"

abbreviation exiteds :: "'a ThreadPool \<Rightarrow> nat" where
  "exiteds p \<equiv> num (\<lambda>w. w = Exited) (tp_workers p)"

lemma is_active_simps [simp]:
  "is_active Checking" "is_active (Executing t)" "\<not> is_active Sleeping" "\<not> is_active Exited"
  by (simp_all add: is_active_def)

lemma is_active_iff: "is_active w \<longleftrightarrow> w = Checking \<or> (\<exists>t. w = Executing t)"
  by (cases w) simp_all

text \<open>
  While somebody sleeps, every queued task has a notification on its way or an active
  worker that will look at the queue again; after the queue was closed the sleepers have
  a broadcast coming; workers return only when the queue is closed and empty.
\<close>

definition pool_inv :: "'a ThreadPool \<Rightarrow> bool" where
  "pool_inv p \<longleftrightarrow>
     (0 < sleepers p \<longrightarrow> length (bq_queue (tp_tasks p)) \<le> tp_notify_one p + actives p)
   \<and> (0 < sleepers p \<and> bq_closed (tp_tasks p) \<longrightarrow> 0 < tp_notify_all p)
   \<and> (0 < exiteds p \<longrightarrow> bq_closed (tp_tasks p) \<and> bq_queue (tp_tasks p) = [])
   \<and> length (bq_queue (tp_tasks p)) \<le> bq_capacity (tp_tasks p)
   \<and> (tp_stopped p \<longleftrightarrow> bq_closed (tp_tasks p))
   \<and> tp_workers p \<noteq> []"

lemma make_ThreadPool_cases:
  "make_ThreadPool spawn n c = Inr p \<longleftrightarrow>
     0 < n \<and> 0 < c \<and> (\<forall>i < n. spawn i) \<and>
     p = \<lparr>tp_tasks = \<lparr>bq_capacity = c, bq_queue = [], bq_closed = False\<rparr>,
          tp_workers = replicate n Checking, tp_stopped = False, tp_notify_one = 0, tp_notify_all = 0\<rparr>"
  by (auto simp: make_ThreadPool_def make_BoundedQueue_def list_all_iff)

lemma make_ThreadPool_inv: "make_ThreadPool spawn n c = Inr p \<Longrightarrow> pool_inv p"
  by (auto simp: make_ThreadPool_cases pool_inv_def)

lemma worker_updates:
  assumes "i < length (tp_workers p)"
  shows "sleepers (set_worker i w p) + (if tp_workers p ! i = Sleeping then 1 else 0)
      = sleepers p + (if w = Sleeping then 1 else 0)"
    and "actives (set_worker i w p) + (if is_active (tp_workers p ! i) then 1 else 0)
      = actives p + (if is_active w then 1 else 0)"
    and "exiteds (set_worker i w p) + (if tp_workers p ! i = Exited then 1 else 0)
      = exiteds p + (if w = Exited then 1 else 0)"
  using num_update [OF assms, of "\<lambda>w. w = Sleeping" w] num_update [OF assms, of is_active w]
    num_update [OF assms, of "\<lambda>w. w = Exited" w]
  by (simp_all add: set_worker_def)

lemma set_worker_sel [simp]:
  "tp_tasks (set_worker i w p) = tp_tasks p" "tp_stopped (set_worker i w p) = tp_stopped p"
  "tp_notify_one (set_worker i w p) = tp_notify_one p"
  "tp_notify_all (set_worker i w p) = tp_notify_all p"
  "tp_workers (set_worker i w p) = [] \<longleftrightarrow> tp_workers p = []"
  by (simp_all add: set_worker_def)

lemma wake_all_counts [simp]:
  "num (\<lambda>w. w = Sleeping) (wake_all ws) = 0"
  "num (\<lambda>w. w = Exited) (wake_all ws) = num (\<lambda>w. w = Exited) ws"
  "wake_all ws = [] \<longleftrightarrow> ws = []"
  by (induction ws) (auto simp: wake_all_def)

lemma submit_inv:
  assumes "pool_inv p" and "pool_trySubmit t p = (st, p')"
  shows "pool_inv p'"
  using assms
  by (auto simp: pool_trySubmit_def tryPush_def pool_inv_def split: option.splits if_splits)

lemma wake_inv:
  assumes inv: "pool_inv p" and i: "i < length (tp_workers p)" "tp_workers p ! i = Sleeping"
    and k: "k = tp_notify_one p \<or> k = tp_notify_one p - 1"
  shows "pool_inv (set_worker i Checking (p\<lparr>tp_notify_one := k\<rparr>))"
proof -
  let ?p = "p\<lparr>tp_notify_one := k\<rparr>"
  have "i < length (tp_workers ?p)" using i by simp
  from worker_updates [OF this, of Checking] i inv k show ?thesis
    by (auto simp: pool_inv_def)
qed

lemma workerLoop_step_inv:
  assumes inv: "pool_inv p" and i: "i < length (tp_workers p)"
    and step: "workerLoop_step exec i (p, s) = Some (p', s')"
  shows "pool_inv p'"
proof (cases "tp_workers p ! i")
  case Checking
  show ?thesis
  proof (cases "bq_queue (tp_tasks p)")
    case Nil
    define w where "w = (if bq_closed (tp_tasks p) then Exited else Sleeping :: 'a Worker)"
    have "p' = set_worker i w p"
      using step Checking bq.pop_empty [OF Nil] by (auto simp: workerLoop_step_def w_def split: if_splits)
    with worker_updates [OF i, of w] inv Checking Nil show ?thesis
      by (auto simp: pool_inv_def w_def split: if_splits)
  next
    case (Cons t ts)
    then have "p' = set_worker i (Executing t) (p\<lparr>tp_tasks := (tp_tasks p)\<lparr>bq_queue := ts\<rparr>\<rparr>)"
      using step Checking by (auto simp: workerLoop_step_def waitPop_def)
    with worker_updates [of i "p\<lparr>tp_tasks := (tp_tasks p)\<lparr>bq_queue := ts\<rparr>\<rparr>" "Executing t"]
      i inv Checking Cons show ?thesis
      by (auto simp: pool_inv_def)
  qed
next
  case (Executing t)
  with step obtain w where "p' = set_worker i w p" "is_active w"
    by (auto simp: workerLoop_step_def split: option.splits prod.splits stage.splits)
  with worker_updates [OF i, of w] inv Executing show ?thesis
    by (cases w) (auto simp: pool_inv_def)
qed (use step in \<open>auto simp: workerLoop_step_def\<close>)

lemma pool_step_inv:
  assumes "pool_step exec c ev c'" and "pool_inv (fst c)"
  shows "pool_inv (fst c')"
  using assms
proof (induction rule: pool_step.induct)
  case (submit t p st p' s)
  then show ?case by (auto dest: submit_inv)
next
  case (notify_one p i s)
  then show ?case using wake_inv [of p i "tp_notify_one p - 1"] by simp
next
  case (notify_nobody p s)
  then show ?case by (auto simp: pool_inv_def)
next
  case (spurious i p s)
  then show ?case using wake_inv [of p i "tp_notify_one p"] by simp
next
  case (stop p s)
  then show ?case by (auto simp: pool_inv_def pool_stop_def bq_close_def)
next
  case (notify_all p s)
  then show ?case by (auto simp: pool_inv_def)
next
  case (work i p s p' s')
  then show ?case by (auto dest: workerLoop_step_inv)
qed

section \<open>Runs\<close>

definition is_executing :: "'a Worker \<Rightarrow> bool" where
  "is_executing w \<longleftrightarrow> (case w of Executing _ \<Rightarrow> True | _ \<Rightarrow> False)"

abbreviation executings :: "'a ThreadPool \<Rightarrow> nat" where
  "executings p \<equiv> num is_executing (tp_workers p)"

lemma is_executing_simps [simp]:
  "is_executing (Executing t)" "\<not> is_executing Checking" "\<not> is_executing Sleeping"
  "\<not> is_executing Exited"
  by (simp_all add: is_executing_def)

lemma executing_wake_all [simp]: "num is_executing (wake_all ws) = num is_executing ws"
  by (induction ws) (auto simp: wake_all_def)

lemma executing_set_worker:
  "i < length (tp_workers p) \<Longrightarrow>
     executings (set_worker i w p) + (if is_executing (tp_workers p ! i) then 1 else 0)
       = executings p + (if is_executing w then 1 else 0)"
  using num_update [of i "tp_workers p" is_executing w] by (simp add: set_worker_def)

text \<open>
  Every step keeps two balances: the queue grows by what is accepted and shrinks by what
  is started, in order; and the tasks being executed grow by what is started and shrink
  by what is finished.
\<close>

lemma workerLoop_step_balance:
  assumes i: "i < length (tp_workers p)" and step: "workerLoop_step exec i (p, s) = Some (p', s')"
  shows "bq_queue (tp_tasks p) = started_by p (Work i) p' @ bq_queue (tp_tasks p')"
    and "executings p + length (started_by p (Work i) p') = executings p' + finished_by p (Work i) p'"
proof -
  have "bq_queue (tp_tasks p) = started_by p (Work i) p' @ bq_queue (tp_tasks p')
    \<and> executings p + length (started_by p (Work i) p') = executings p' + finished_by p (Work i) p'"
  proof (cases "tp_workers p ! i")
    case Checking
    show ?thesis
    proof (cases "bq_queue (tp_tasks p)")
      case Nil
      then have "p' = set_worker i (if bq_closed (tp_tasks p) then Exited else Sleeping) p"
        using step Checking bq.pop_empty [OF Nil] by (auto simp: workerLoop_step_def split: if_splits)
      with executing_set_worker [OF i, of "if bq_closed (tp_tasks p) then Exited else Sleeping"]
        Checking Nil i show ?thesis
        by (auto simp: started_by_def finished_by_def set_worker_def split: if_splits)
    next
      case (Cons t ts)
      let ?p = "p\<lparr>tp_tasks := (tp_tasks p)\<lparr>bq_queue := ts\<rparr>\<rparr>"
      have "p' = set_worker i (Executing t) ?p"
        using step Checking Cons by (auto simp: workerLoop_step_def waitPop_def)
      with executing_set_worker [of i ?p "Executing t"] Checking Cons i show ?thesis
        by (simp add: started_by_def finished_by_def set_worker_def)
    qed
  next
    case (Executing t)
    with step obtain w where w: "p' = set_worker i w p" "w = Checking \<or> is_executing w"
      by (auto simp: workerLoop_step_def split: option.splits prod.splits stage.splits)
    with executing_set_worker [OF i, of w] Executing i show ?thesis
      by (cases w) (auto simp: started_by_def finished_by_def set_worker_def)
  qed (use step in \<open>auto simp: workerLoop_step_def\<close>)
  then show "bq_queue (tp_tasks p) = started_by p (Work i) p' @ bq_queue (tp_tasks p')"
    and "executings p + length (started_by p (Work i) p') = executings p' + finished_by p (Work i) p'"
    by simp_all
qed

lemma pool_step_balance:
  assumes "pool_step exec c ev c'"
  shows "bq_queue (tp_tasks (fst c)) @ accepted_by ev
      = started_by (fst c) ev (fst c') @ bq_queue (tp_tasks (fst c'))
    \<and> executings (fst c) + length (started_by (fst c) ev (fst c'))
      = executings (fst c') + finished_by (fst c) ev (fst c')"
  using assms
proof (induction rule: pool_step.induct)
  case (submit t p st p' s)
  then show ?case
    by (auto simp: pool_trySubmit_def tryPush_def accepted_by_def started_by_def finished_by_def
        split: if_splits)
next
  case (notify_one p i s)
  then show ?case
    using executing_set_worker [of i "p\<lparr>tp_notify_one := tp_notify_one p - 1\<rparr>" Checking]
    by (simp add: accepted_by_def started_by_def finished_by_def)
next
  case (spurious i p s)
  then show ?case
    using executing_set_worker [of i p Checking]
    by (simp add: accepted_by_def started_by_def finished_by_def)
next
  case (stop p s)
  then show ?case
    by (simp add: accepted_by_def started_by_def finished_by_def pool_stop_def bq_close_def)
next
  case (work i p s p' s')
  then show ?case using workerLoop_step_balance [of i p exec s p' s'] by (simp add: accepted_by_def)
qed (simp_all add: accepted_by_def started_by_def finished_by_def)

definition fresh_pool :: "'a ThreadPool \<Rightarrow> bool" where
  "fresh_pool p \<longleftrightarrow> pool_inv p \<and> bq_queue (tp_tasks p) = [] \<and> executings p = 0"

lemma make_ThreadPool_fresh: "make_ThreadPool spawn n c = Inr p \<Longrightarrow> fresh_pool p"
  by (auto simp: fresh_pool_def make_ThreadPool_inv, auto simp: make_ThreadPool_cases)

lemma pool_run_props:
  assumes "pool_run exec c0 acc sta fin c" and "fresh_pool (fst c0)"
  shows "pool_inv (fst c) \<and> acc = sta @ bq_queue (tp_tasks (fst c))
    \<and> length sta = fin + executings (fst c)"
  using assms
proof (induction rule: pool_run.induct)
  case start
  then show ?case by (simp add: fresh_pool_def)
next
  case (step acc sta fin p s ev p' s')
  with pool_step_inv [OF step.hyps(2)] pool_step_balance [OF step.hyps(2)] show ?case
    by simp
qed

section \<open>Progress and shutdown\<close>

lemma pool_inv_progress:
  assumes inv: "pool_inv p" and queued: "bq_queue (tp_tasks p) \<noteq> []"
  shows "0 < tp_notify_one p \<or> (\<exists>i < length (tp_workers p). is_active (tp_workers p ! i))"
proof (cases "0 < sleepers p")
  case True
  with inv queued have "0 < tp_notify_one p + actives p"
    by (cases "bq_queue (tp_tasks p)") (auto simp: pool_inv_def)
  then show ?thesis by (auto simp: num_pos_iff)
next
  case False
  from inv queued have "exiteds p = 0" and ne: "tp_workers p \<noteq> []" by (auto simp: pool_inv_def)
  with False have "is_active w" if "w \<in> set (tp_workers p)" for w
    using that by (cases w) (auto simp: num_zero_iff)
  with ne show ?thesis by (metis length_greater_0_conv nth_mem)
qed

lemma pool_inv_stopping_progress:
  assumes inv: "pool_inv p" and closed: "bq_closed (tp_tasks p)" and more: "\<not> pool_joined p"
  shows "0 < tp_notify_all p \<or> (\<exists>i < length (tp_workers p). is_active (tp_workers p ! i))"
proof -
  from more obtain i where i: "i < length (tp_workers p)" "tp_workers p ! i \<noteq> Exited"
    unfolding pool_joined_def list_all_length by blast
  show ?thesis
  proof (cases "tp_workers p ! i")
    case Sleeping
    with i have "0 < sleepers p" by (auto simp: num_pos_iff)
    with inv closed show ?thesis by (simp add: pool_inv_def)
  qed (use i in \<open>auto intro!: exI [of _ i]\<close>)
qed

text \<open>
  How much work a closed pool has left, when \<open>stages\<close> bounds the stages of a task: every
  step of a closed pool other than a refused submission takes some of it away.
\<close>

fun worker_weight :: "('a \<Rightarrow> nat) \<Rightarrow> 'a Worker \<Rightarrow> nat" where
  "worker_weight stages Checking = 1"
| "worker_weight stages Sleeping = 2"
| "worker_weight stages (Executing t) = stages t + 2"
| "worker_weight stages Exited = 0"

definition pool_work_left :: "('a \<Rightarrow> nat) \<Rightarrow> 'a ThreadPool \<Rightarrow> nat" where
  "pool_work_left stages p =
     sum_list (map (worker_weight stages) (tp_workers p))
     + sum_list (map (\<lambda>t. stages t + 2) (bq_queue (tp_tasks p)))
     + tp_notify_one p + tp_notify_all p"

lemma work_left_set_worker:
  "i < length (tp_workers p) \<Longrightarrow>
     pool_work_left stages (set_worker i w p) + worker_weight stages (tp_workers p ! i)
       = pool_work_left stages p + worker_weight stages w"
  using sum_list_map_update [of i "tp_workers p" "worker_weight stages" w]
  by (simp add: pool_work_left_def set_worker_def)

lemma weight_wake_all:
  "sum_list (map (worker_weight stages) (wake_all ws)) \<le> sum_list (map (worker_weight stages) ws)"
  by (induction ws) (auto simp: wake_all_def)

lemma workerLoop_step_work_left:
  assumes stages: "\<And>t s t' s'. exec t s = Some (Continue t', s') \<Longrightarrow> stages t' < stages t"
    and closed: "bq_closed (tp_tasks p)" and i: "i < length (tp_workers p)"
    and step: "workerLoop_step exec i (p, s) = Some (p', s')"
  shows "pool_work_left stages p' < pool_work_left stages p"
proof (cases "tp_workers p ! i")
  case Checking
  show ?thesis
  proof (cases "bq_queue (tp_tasks p)")
    case Nil
    have "p' = set_worker i Exited p"
      using step Checking closed bq.pop_empty [OF Nil] by (auto simp: workerLoop_step_def)
    with work_left_set_worker [OF i, of stages Exited] Checking show ?thesis by simp
  next
    case (Cons t ts)
    let ?p = "p\<lparr>tp_tasks := (tp_tasks p)\<lparr>bq_queue := ts\<rparr>\<rparr>"
    have "p' = set_worker i (Executing t) ?p"
      using step Checking Cons by (auto simp: workerLoop_step_def waitPop_def)
    moreover have "pool_work_left stages p = pool_work_left stages ?p + stages t + 2"
      using Cons by (simp add: pool_work_left_def)
    ultimately show ?thesis
      using work_left_set_worker [of i ?p stages "Executing t"] Checking i by simp
  qed
next
  case (Executing t)
  with step obtain w where w: "p' = set_worker i w p"
    "worker_weight stages w < worker_weight stages (Executing t)"
    by (auto simp: workerLoop_step_def dest!: stages
        split: option.splits prod.splits stage.splits)
  with work_left_set_worker [OF i, of stages w] Executing show ?thesis by simp
qed (use step in \<open>auto simp: workerLoop_step_def\<close>)

lemma pool_step_work_left:
  assumes stages: "\<And>t s t' s'. exec t s = Some (Continue t', s') \<Longrightarrow> stages t' < stages t"
    and "pool_step exec c ev c'" and "bq_closed (tp_tasks (fst c))" and "pool_inv (fst c)"
    and "\<And>t st. ev \<noteq> Submit t st"
  shows "pool_work_left stages (fst c') < pool_work_left stages (fst c) \<and> bq_closed (tp_tasks (fst c'))"
  using assms(2-)
proof (induction rule: pool_step.induct)
  case (notify_one p i s)
  let ?p = "p\<lparr>tp_notify_one := tp_notify_one p - 1\<rparr>"
  have "pool_work_left stages ?p < pool_work_left stages p"
    using notify_one by (simp add: pool_work_left_def)
  then show ?case
    using work_left_set_worker [of i ?p stages Checking] notify_one by simp
next
  case (notify_nobody p s)
  then show ?case by (simp add: pool_work_left_def)
next
  case (spurious i p s)
  then show ?case using work_left_set_worker [of i p stages Checking] by simp
next
  case (stop p s)
  then show ?case by (simp add: pool_inv_def)
next
  case (notify_all p s)
  then show ?case using weight_wake_all [of stages "tp_workers p"] by (simp add: pool_work_left_def)
next
  case (work i p s p' s')
  have "bq_closed (tp_tasks p')"
    using work by (auto simp: workerLoop_step_def waitPop_def split: Worker.splits option.splits
        prod.splits stage.splits if_splits)
  with work show ?case using workerLoop_step_work_left [OF stages] by simp
qed auto

section \<open>Properties\<close>

text \<open>C7: No wake-up is lost. In every state a newly built pool can reach, with any number of
  submitters, spurious wake-ups and any scheduling: while a task is queued, some worker
  is about to look at the queue or is executing a task after which it will, or a
  notification is on its way.\<close>

theorem queued_task_not_stranded:
  assumes "make_ThreadPool spawn worker_count capacity = Inr p0"
    and "pool_run exec (p0, s0) accepted started finished (p, s)"
    and "pool_pendingTaskCount p > 0"
  shows "tp_notify_one p > 0 \<or>
    (\<exists>i < length (tp_workers p). tp_workers p ! i = Checking \<or> (\<exists>t. tp_workers p ! i = Executing t))"
proof -
  have "pool_inv p" using pool_run_props [OF assms(2)] make_ThreadPool_fresh [OF assms(1)] by simp
  moreover have "bq_queue (tp_tasks p) \<noteq> []"
    using assms(3) by (auto simp: pool_pendingTaskCount_def bq_size_def)
  ultimately show ?thesis
    using pool_inv_progress [of p] by (simp add: is_active_iff)
qed

definition sample_pool :: "nat ThreadPool" where
  "sample_pool = \<lparr>tp_tasks = \<lparr>bq_capacity = 2, bq_queue = [], bq_closed = False\<rparr>,
     tp_workers = [Checking], tp_stopped = False, tp_notify_one = 0, tp_notify_all = 0\<rparr>"

definition sample_exec :: "(nat, unit) exec" where
  "sample_exec t s = Some (Finished, s)"

lemma sample_pool_made: "make_ThreadPool (\<lambda>_. True) 1 2 = Inr sample_pool"
  by (simp add: make_ThreadPool_cases sample_pool_def)

lemma sample_pool_submitted:
  "pool_run sample_exec (sample_pool, ()) [9] [] 0
     (sample_pool\<lparr>tp_tasks := \<lparr>bq_capacity = 2, bq_queue = [9], bq_closed = False\<rparr>, tp_notify_one := 1\<rparr>, ())"
proof -
  let ?p = "sample_pool\<lparr>tp_tasks := \<lparr>bq_capacity = 2, bq_queue = [9], bq_closed = False\<rparr>, tp_notify_one := 1\<rparr>"
  have "pool_step sample_exec (sample_pool, ()) (Submit 9 sub_Success) (?p, ())"
    by (rule pool_step.submit) (simp add: pool_trySubmit_def tryPush_def sample_pool_def)
  from pool_run.step [OF pool_run.start this] show ?thesis
    by (simp add: accepted_by_def started_by_def finished_by_def)
qed

theorem queued_task_not_stranded_witness:
  "tp_notify_one (sample_pool\<lparr>tp_tasks := \<lparr>bq_capacity = 2, bq_queue = [9], bq_closed = False\<rparr>, tp_notify_one := 1\<rparr>) > 0
   \<or> (\<exists>i < length (tp_workers sample_pool). tp_workers sample_pool ! i = Checking
      \<or> (\<exists>t. tp_workers sample_pool ! i = Executing t))"
  using queued_task_not_stranded [OF sample_pool_made sample_pool_submitted]
  by (simp add: pool_pendingTaskCount_def bq_size_def)

lemma shutdown_runs_all_tasks_facts:
  assumes "make_ThreadPool spawn worker_count capacity = Inr p0"
    and "pool_run exec (p0, s0) accepted started finished (p, s)"
  shows "accepted = started @ bq_queue (tp_tasks p)"
    and "pool_joined p \<Longrightarrow> started = accepted \<and> finished = length accepted \<and> bq_queue (tp_tasks p) = []"
proof -
  note props = pool_run_props [OF assms(2)]
  then show acc: "accepted = started @ bq_queue (tp_tasks p)"
    using make_ThreadPool_fresh [OF assms(1)] by simp
  assume joined: "pool_joined p"
  have inv: "pool_inv p" and fin: "length started = finished + executings p"
    using props make_ThreadPool_fresh [OF assms(1)] by simp_all
  have all: "\<forall>w \<in> set (tp_workers p). w = Exited" using joined by (simp add: pool_joined_def list_all_iff)
  then have "executings p = 0" by (auto simp: num_zero_iff)
  moreover have "0 < exiteds p"
    using inv all by (cases "tp_workers p") (auto simp: pool_inv_def)
  ultimately show "started = accepted \<and> finished = length accepted \<and> bq_queue (tp_tasks p) = []"
    using inv fin acc by (simp add: pool_inv_def)
qed

text \<open>C5: Graceful shutdown. Tasks are started in the order in which they were accepted; and
  once every worker has returned, so that \<open>stop\<close> can return, the queue is empty and every
  accepted task was started exactly once and has come to its end, also those that threw.\<close>

theorem shutdown_runs_all_tasks:
  assumes "make_ThreadPool spawn worker_count capacity = Inr p0"
    and "pool_run exec (p0, s0) accepted started finished (p, s)"
  shows "accepted = started @ bq_queue (tp_tasks p)
    \<and> (pool_joined p \<longrightarrow> started = accepted \<and> finished = length accepted \<and> bq_queue (tp_tasks p) = [])"
  using shutdown_runs_all_tasks_facts [OF assms] by blast

definition drained_pool :: "nat ThreadPool" where
  "drained_pool = \<lparr>tp_tasks = \<lparr>bq_capacity = 2, bq_queue = [], bq_closed = True\<rparr>,
     tp_workers = [Exited], tp_stopped = True, tp_notify_one = 1, tp_notify_all = 1\<rparr>"

lemma sample_pool_drained: "pool_run sample_exec (sample_pool, ()) [9] [9] 1 (drained_pool, ())"
proof -
  let ?p1 = "sample_pool\<lparr>tp_tasks := \<lparr>bq_capacity = 2, bq_queue = [9], bq_closed = False\<rparr>, tp_notify_one := 1\<rparr>"
  let ?p2 = "pool_stop ?p1"
  let ?p3 = "set_worker 0 (Executing 9) (?p2\<lparr>tp_tasks := \<lparr>bq_capacity = 2, bq_queue = [], bq_closed = True\<rparr>\<rparr>)"
  let ?p4 = "set_worker 0 Checking ?p3"
  have 2: "pool_step sample_exec (?p1, ()) Stop (?p2, ())"
    by (rule pool_step.stop) (simp add: sample_pool_def)
  have 3: "pool_step sample_exec (?p2, ()) (Work 0) (?p3, ())"
    by (rule pool_step.work) (simp_all add: workerLoop_step_def waitPop_def pool_stop_def bq_close_def
        sample_pool_def set_worker_def)
  have 4: "pool_step sample_exec (?p3, ()) (Work 0) (?p4, ())"
    by (rule pool_step.work) (simp_all add: workerLoop_step_def sample_exec_def pool_stop_def
        sample_pool_def set_worker_def)
  have 5: "pool_step sample_exec (?p4, ()) (Work 0) (drained_pool, ())"
    by (rule pool_step.work) (simp_all add: workerLoop_step_def waitPop_def pool_stop_def
        sample_pool_def set_worker_def drained_pool_def)
  from pool_run.step [OF pool_run.step [OF pool_run.step [OF pool_run.step [OF sample_pool_submitted 2] 3] 4] 5]
  show ?thesis
    by (simp add: accepted_by_def started_by_def finished_by_def pool_stop_def sample_pool_def
        set_worker_def drained_pool_def)
qed

theorem shutdown_runs_all_tasks_witness:
  "pool_joined drained_pool \<and> [9 :: nat] = [9] \<and> (1 :: nat) = length [9 :: nat]"
  using shutdown_runs_all_tasks [OF sample_pool_made sample_pool_drained]
  by (simp add: pool_joined_def drained_pool_def)

lemma stop_terminates_facts:
  assumes "make_ThreadPool spawn worker_count capacity = Inr p0"
    and "pool_run exec (p0, s0) accepted started finished (p, s)" and "bq_closed (tp_tasks p)"
    and stages: "\<And>t s t' s'. exec t s = Some (Continue t', s') \<Longrightarrow> stages t' < (stages t :: nat)"
    and total: "\<And>t s. \<exists>r. exec t s = Some r"
  shows "\<not> (\<exists>f. f 0 = (p, s) \<and>
      (\<forall>n. \<exists>ev. (\<forall>t st. ev \<noteq> Submit t st) \<and> pool_step exec (f n) ev (f (Suc n))))"
    and "\<not> pool_joined p \<Longrightarrow> \<exists>ev c'. (\<forall>t st. ev \<noteq> Submit t st) \<and> pool_step exec (p, s) ev c'"
proof -
  have inv: "pool_inv p" using pool_run_props [OF assms(2)] make_ThreadPool_fresh [OF assms(1)] by simp
  show "\<not> (\<exists>f. f 0 = (p, s) \<and>
      (\<forall>n. \<exists>ev. (\<forall>t st. ev \<noteq> Submit t st) \<and> pool_step exec (f n) ev (f (Suc n))))"
  proof
    assume "\<exists>f. f 0 = (p, s) \<and> (\<forall>n. \<exists>ev. (\<forall>t st. ev \<noteq> Submit t st) \<and> pool_step exec (f n) ev (f (Suc n)))"
    then obtain f where f0: "f 0 = (p, s)"
      and f: "\<And>n. \<exists>ev. (\<forall>t st. ev \<noteq> Submit t st) \<and> pool_step exec (f n) ev (f (Suc n))" by blast
    have ok: "pool_inv (fst (f n)) \<and> bq_closed (tp_tasks (fst (f n)))
      \<and> pool_work_left stages (fst (f n)) + n \<le> pool_work_left stages p" for n
    proof (induction n)
      case 0
      then show ?case using f0 inv assms(3) by simp
    next
      case (Suc n)
      obtain ev where ev: "\<And>t st. ev \<noteq> Submit t st" "pool_step exec (f n) ev (f (Suc n))" using f by blast
      from pool_step_work_left [OF stages ev(2) _ _ ev(1)] pool_step_inv [OF ev(2)] Suc show ?case
        by fastforce
    qed
    from ok [of "Suc (pool_work_left stages p)"] show False by simp
  qed
  assume "\<not> pool_joined p"
  from pool_inv_stopping_progress [OF inv assms(3) this]
  show "\<exists>ev c'. (\<forall>t st. ev \<noteq> Submit t st) \<and> pool_step exec (p, s) ev c'"
  proof
    assume "0 < tp_notify_all p"
    then show ?thesis by (blast intro: pool_step.notify_all)
  next
    assume "\<exists>i < length (tp_workers p). is_active (tp_workers p ! i)"
    then obtain i where i: "i < length (tp_workers p)" "is_active (tp_workers p ! i)" by blast
    have "\<exists>c'. workerLoop_step exec i (p, s) = Some c'"
    proof (cases "tp_workers p ! i")
      case (Executing t)
      with total [of t s] show ?thesis by (auto simp: workerLoop_step_def split: stage.splits prod.splits)
    next
      case Checking
      then show ?thesis
        by (cases "waitPop (tp_tasks p)") (auto simp: workerLoop_step_def split: PopResult.splits)
    qed (use i in auto)
    with i show ?thesis by (metis pool_event.distinct(9) pool_step.work prod.collapse)
  qed
qed

text \<open>C12: \<open>stop\<close> terminates. Once the queue is closed, and if the stages of every task are
  finite in number and return, the pool cannot make steps other than refused submissions
  for ever, and as long as a worker has not returned some such step is possible: every
  execution of the closed pool ends with all workers joined.\<close>

theorem stop_terminates:
  assumes "make_ThreadPool spawn worker_count capacity = Inr p0"
    and "pool_run exec (p0, s0) accepted started finished (p, s)" and "bq_closed (tp_tasks p)"
    and stages: "\<And>t s t' s'. exec t s = Some (Continue t', s') \<Longrightarrow> stages t' < (stages t :: nat)"
    and total: "\<And>t s. \<exists>r. exec t s = Some r"
  shows "\<not> (\<exists>f. f 0 = (p, s) \<and>
      (\<forall>n. \<exists>ev. (\<forall>t st. ev \<noteq> Submit t st) \<and> pool_step exec (f n) ev (f (Suc n))))
    \<and> (\<not> pool_joined p \<longrightarrow> (\<exists>ev c'. (\<forall>t st. ev \<noteq> Submit t st) \<and> pool_step exec (p, s) ev c'))"
proof (intro conjI impI)
  show "\<not> (\<exists>f. f 0 = (p, s) \<and>
      (\<forall>n. \<exists>ev. (\<forall>t st. ev \<noteq> Submit t st) \<and> pool_step exec (f n) ev (f (Suc n))))"
    by (rule stop_terminates_facts(1) [OF assms(1-3), of stages]) (use stages total in blast)+
  assume "\<not> pool_joined p"
  then show "\<exists>ev c'. (\<forall>t st. ev \<noteq> Submit t st) \<and> pool_step exec (p, s) ev c'"
    by (rule stop_terminates_facts(2) [OF assms(1-3), of stages, rotated 2]) (use stages total in blast)+
qed

lemma sample_pool_stopped:
  "pool_run sample_exec (sample_pool, ()) [] [] 0 (pool_stop sample_pool, ())"
proof -
  have "pool_step sample_exec (sample_pool, ()) Stop (pool_stop sample_pool, ())"
    by (rule pool_step.stop) (simp add: sample_pool_def)
  from pool_run.step [OF pool_run.start this] show ?thesis
    by (simp add: accepted_by_def started_by_def finished_by_def)
qed

theorem stop_terminates_witness:
  "(\<exists>ev c'. (\<forall>t st. ev \<noteq> Submit t st) \<and> pool_step sample_exec (pool_stop sample_pool, ()) ev c')
   \<and> \<not> (\<exists>f. f 0 = (pool_stop sample_pool, ()) \<and>
      (\<forall>n. \<exists>ev. (\<forall>t st. ev \<noteq> Submit t st) \<and> pool_step sample_exec (f n) ev (f (Suc n))))"
proof -
  have c: "bq_closed (tp_tasks (pool_stop sample_pool))" "\<not> pool_joined (pool_stop sample_pool)"
    by (simp_all add: pool_stop_def sample_pool_def bq_close_def pool_joined_def)
  have e: "\<And>t s t' s'. sample_exec t s = Some (Continue t', s') \<Longrightarrow> (0 :: nat) < 0" "\<And>t s. \<exists>r. sample_exec t s = Some r"
    by (simp_all add: sample_exec_def)
  note th = stop_terminates [where stages = "\<lambda>_. 0", OF sample_pool_made sample_pool_stopped c(1) e]
  show ?thesis using conjunct1 [OF th] mp [OF conjunct2 [OF th] c(2)] by (rule conjI [rotated])
qed

end
