(* ===== verification/Event_Fd.thy ===== *)
theory Event_Fd
  imports Owned_Descriptor Sample_Kernel
begin

text \<open>
  The class \<open>EventFd\<close>: \<open>include/netpulse/network/event_fd.hpp\<close> and
  \<open>src/network/event_fd.cpp\<close>. Worker threads notify the event loop through it.
\<close>

section \<open>State and life cycle\<close>

record EventFdOperationResult =
  efo_success :: bool
  efo_error_number :: errno

record EventFdReadResult =
  efr_success :: bool
  efr_value :: u64
  efr_error_number :: errno

record EventFd =
  efd_fd :: fd
  efd_error_number :: errno

definition make_EventFd :: "'w os \<Rightarrow> u32 \<Rightarrow> 'w \<Rightarrow> EventFd \<times> 'w" where
  "make_EventFd os initial_value w =
     (case sys_eventfd os initial_value EFD_NONBLOCK_CLOEXEC w of
        (Ok fd, w') \<Rightarrow> (\<lparr>efd_fd = fd, efd_error_number = (if fd < 0 then sys_errno os w' else 0)\<rparr>, w')
      | (Fail e, w') \<Rightarrow> (\<lparr>efd_fd = -1, efd_error_number = e\<rparr>, w'))"

definition efd_valid :: "EventFd \<Rightarrow> bool" where
  "efd_valid x \<longleftrightarrow> 0 \<le> efd_fd x"

definition efd_closeDescriptor :: "'w os \<Rightarrow> EventFd \<Rightarrow> 'w \<Rightarrow> EventFd \<times> 'w" where
  "efd_closeDescriptor os x w =
     (if 0 \<le> efd_fd x then (x\<lparr>efd_fd := -1\<rparr>, sys_close os (efd_fd x) w) else (x, w))"

definition efd_destroy :: "'w os \<Rightarrow> EventFd \<Rightarrow> 'w \<Rightarrow> 'w" where
  "efd_destroy os x w = snd (efd_closeDescriptor os x w)"

definition efd_move :: "EventFd \<Rightarrow> EventFd \<times> EventFd" where
  "efd_move other =
     (\<lparr>efd_fd = efd_fd other, efd_error_number = efd_error_number other\<rparr>,
      other\<lparr>efd_fd := -1, efd_error_number := 0\<rparr>)"

definition efd_assign :: "'w os \<Rightarrow> EventFd \<Rightarrow> EventFd \<Rightarrow> 'w \<Rightarrow> EventFd \<times> EventFd \<times> 'w" where
  "efd_assign os this other w =
     (case efd_closeDescriptor os this w of
        (this1, w') \<Rightarrow>
          (this1\<lparr>efd_fd := efd_fd other, efd_error_number := efd_error_number other\<rparr>,
           other\<lparr>efd_fd := -1, efd_error_number := 0\<rparr>, w'))"

section \<open>notify and consume\<close>

text \<open>One iteration of the retry loop of \<open>notify\<close>.\<close>

definition notify_body ::
  "'w os \<Rightarrow> fd \<Rightarrow> u64 \<Rightarrow> 'w \<Rightarrow> 'w + EventFdOperationResult \<times> 'w" where
  "notify_body os fd value w =
     (case sys_write_u64 os fd value w of
        (Ok bytes_written, w') \<Rightarrow>
          if bytes_written = 8 then Inr (\<lparr>efo_success = True, efo_error_number = 0\<rparr>, w')
          else Inr (\<lparr>efo_success = False, efo_error_number = EIO\<rparr>, w')
      | (Fail en, w') \<Rightarrow>
          if en = EINTR then Inl w'
          else Inr (\<lparr>efo_success = False, efo_error_number = en\<rparr>, w'))"

definition notify ::
  "'w os \<Rightarrow> EventFd \<Rightarrow> u64 \<Rightarrow> 'w \<Rightarrow> (EventFdOperationResult \<times> 'w) option" where
  "notify os x value w =
     (if \<not> efd_valid x then Some (\<lparr>efo_success = False, efo_error_number = EBADF\<rparr>, w)
      else if value = 0 then Some (\<lparr>efo_success = False, efo_error_number = EINVAL\<rparr>, w)
      else loop (notify_body os (efd_fd x) value) w)"

text \<open>One iteration of the retry loop of \<open>consume\<close>.\<close>

definition consume_body :: "'w os \<Rightarrow> fd \<Rightarrow> 'w \<Rightarrow> 'w + EventFdReadResult \<times> 'w" where
  "consume_body os fd w =
     (case sys_read_u64 os fd w of
        (Ok (bytes_read, value), w') \<Rightarrow>
          if bytes_read = 8 then
            Inr (\<lparr>efr_success = True, efr_value = value, efr_error_number = 0\<rparr>, w')
          else Inr (\<lparr>efr_success = False, efr_value = 0, efr_error_number = EIO\<rparr>, w')
      | (Fail en, w') \<Rightarrow>
          if en = EINTR then Inl w'
          else Inr (\<lparr>efr_success = False, efr_value = 0, efr_error_number = en\<rparr>, w'))"

definition consume :: "'w os \<Rightarrow> EventFd \<Rightarrow> 'w \<Rightarrow> (EventFdReadResult \<times> 'w) option" where
  "consume os x w =
     (if \<not> efd_valid x then
        Some (\<lparr>efr_success = False, efr_value = 0, efr_error_number = EBADF\<rparr>, w)
      else loop (consume_body os (efd_fd x)) w)"

section \<open>What the counter does\<close>

text \<open>
  \<open>eventfd(2)\<close>, in non-blocking mode and without \<open>EFD_SEMAPHORE\<close>: the kernel keeps a
  counter (\<open>ctr\<close>). A write of eight bytes adds its value, or fails with \<open>EAGAIN\<close> and
  leaves the counter alone when the sum would exceed \<open>2^64 - 2\<close>; a read of eight bytes
  returns the counter and resets it, or fails with \<open>EAGAIN\<close> when it is zero. Other
  failures change nothing, and an error number is positive.
\<close>

definition eventfd_contract :: "'w os \<Rightarrow> fd \<Rightarrow> ('w \<Rightarrow> nat) \<Rightarrow> bool" where
  "eventfd_contract os fd ctr \<longleftrightarrow>
     (\<forall>v w. (\<forall>n w'. sys_write_u64 os fd v w = (Ok n, w') \<longrightarrow>
              n = 8 \<and> ctr w' = ctr w + unat v \<and> ctr w' < 2 ^ 64 - 1)
          \<and> (\<forall>en w'. sys_write_u64 os fd v w = (Fail en, w') \<longrightarrow>
              0 < en \<and> ctr w' = ctr w \<and> (en = EAGAIN \<longrightarrow> 2 ^ 64 - 1 \<le> ctr w + unat v)))
   \<and> (\<forall>w. (\<forall>n v w'. sys_read_u64 os fd w = (Ok (n, v), w') \<longrightarrow>
              n = 8 \<and> 0 < ctr w \<and> unat v = ctr w \<and> ctr w' = 0)
          \<and> (\<forall>en w'. sys_read_u64 os fd w = (Fail en, w') \<longrightarrow>
              ctr w' = ctr w \<and> (en = EAGAIN \<longrightarrow> ctr w = 0)))"

definition eventfd_interrupts_end :: "'w os \<Rightarrow> fd \<Rightarrow> ('w \<Rightarrow> nat) \<Rightarrow> bool" where
  "eventfd_interrupts_end os fd m \<longleftrightarrow>
     (\<forall>v w w'. sys_write_u64 os fd v w = (Fail EINTR, w') \<longrightarrow> m w' < m w)
   \<and> (\<forall>w w'. sys_read_u64 os fd w = (Fail EINTR, w') \<longrightarrow> m w' < m w)"

lemma eventfd_contractD [os_contracts]:
  assumes "eventfd_contract os fd ctr"
  shows "sys_write_u64 os fd v w = (Ok n, w') \<Longrightarrow> n = 8 \<and> ctr w' = ctr w + unat v"
    and "sys_write_u64 os fd v w = (Fail en, w') \<Longrightarrow>
      0 < en \<and> ctr w' = ctr w \<and> (en = EAGAIN \<longrightarrow> 2 ^ 64 - 1 \<le> ctr w + unat v)"
    and "sys_read_u64 os fd w = (Ok (n, u), w') \<Longrightarrow>
      n = 8 \<and> 0 < ctr w \<and> unat u = ctr w \<and> ctr w' = 0"
    and "sys_read_u64 os fd w = (Fail en, w') \<Longrightarrow>
      ctr w' = ctr w \<and> (en = EAGAIN \<longrightarrow> ctr w = 0)"
  using assms unfolding eventfd_contract_def by simp_all

lemmas eventfd_defs = efd_valid_def efd_closeDescriptor_def efd_destroy_def efd_move_def
  efd_assign_def close_if_valid_def

interpretation efd: owned_descriptor efd_fd efd_move efd_assign efd_destroy
  by unfold_locales (auto simp: eventfd_defs split: if_splits)

lemma notify_post:
  assumes os: "eventfd_contract os (efd_fd x) ctr" and x: "efd_valid x" and v: "v \<noteq> 0"
    and ret: "notify os x v w = Some (r, w')"
  shows "efo_success r \<and> efo_error_number r = 0 \<and> ctr w' = ctr w + unat v
    \<or> \<not> efo_success r \<and> 0 < efo_error_number r \<and> ctr w' = ctr w
      \<and> (efo_error_number r = EAGAIN \<longrightarrow> 2 ^ 64 - 1 \<le> ctr w + unat v)"
proof -
  let ?Q = "\<lambda>(r, w'). efo_success r \<and> efo_error_number r = 0 \<and> ctr w' = ctr w + unat v
    \<or> \<not> efo_success r \<and> 0 < efo_error_number r \<and> ctr w' = ctr w
      \<and> (efo_error_number r = EAGAIN \<longrightarrow> 2 ^ 64 - 1 \<le> ctr w + unat v)"
  have "loop (notify_body os (efd_fd x) v) w = Some (r, w')"
    using ret x v by (simp add: notify_def)
  then have "?Q (r, w')"
  proof (rule loop_rule [where I = "\<lambda>u. ctr u = ctr w"])
    fix u u' assume "ctr u = ctr w" "notify_body os (efd_fd x) v u = Inl u'"
    then show "ctr u' = ctr w"
      by (auto simp: notify_body_def split: prod.splits sys_ret.splits if_splits
          dest: eventfd_contractD(2) [OF os])
  next
    fix u q assume "ctr u = ctr w" "notify_body os (efd_fd x) v u = Inr q"
    then show "?Q q"
      by (auto simp: notify_body_def split: prod.splits sys_ret.splits if_splits
          dest!: eventfd_contractD(1,2) [OF os])
  qed simp
  then show ?thesis by simp
qed

lemma consume_post:
  assumes os: "eventfd_contract os (efd_fd x) ctr" and x: "efd_valid x"
    and ret: "consume os x w = Some (r, w')"
  shows "efr_success r \<and> efr_error_number r = 0 \<and> 0 < ctr w \<and> unat (efr_value r) = ctr w
      \<and> ctr w' = 0
    \<or> \<not> efr_success r \<and> efr_value r = 0 \<and> ctr w' = ctr w
      \<and> (efr_error_number r = EAGAIN \<longrightarrow> ctr w = 0)"
proof -
  let ?Q = "\<lambda>(r, w'). efr_success r \<and> efr_error_number r = 0 \<and> 0 < ctr w
      \<and> unat (efr_value r) = ctr w \<and> ctr w' = 0
    \<or> \<not> efr_success r \<and> efr_value r = 0 \<and> ctr w' = ctr w
      \<and> (efr_error_number r = EAGAIN \<longrightarrow> ctr w = 0)"
  have "loop (consume_body os (efd_fd x)) w = Some (r, w')"
    using ret x by (simp add: consume_def)
  then have "?Q (r, w')"
  proof (rule loop_rule [where I = "\<lambda>u. ctr u = ctr w"])
    fix u u' assume "ctr u = ctr w" "consume_body os (efd_fd x) u = Inl u'"
    then show "ctr u' = ctr w"
      by (auto simp: consume_body_def split: prod.splits sys_ret.splits if_splits
          dest: eventfd_contractD(4) [OF os])
  next
    fix u q assume "ctr u = ctr w" "consume_body os (efd_fd x) u = Inr q"
    then show "?Q q"
      by (auto simp: consume_body_def split: prod.splits sys_ret.splits if_splits
          dest!: eventfd_contractD(3,4) [OF os])
  qed simp
  then show ?thesis by simp
qed

lemma notify_returns:
  assumes "eventfd_interrupts_end os (efd_fd x) m"
  shows "\<exists>r w'. notify os x v w = Some (r, w')"
proof -
  have "\<exists>q. loop (notify_body os (efd_fd x) v) w = Some q"
    by (rule loop_terminates [where I = "\<lambda>_. True" and R = "measure m"])
      (use assms in \<open>auto simp: notify_body_def eventfd_interrupts_end_def
        split: prod.splits sys_ret.splits if_splits\<close>)
  then show ?thesis by (auto simp: notify_def)
qed

lemma consume_returns:
  assumes "eventfd_interrupts_end os (efd_fd x) m"
  shows "\<exists>r w'. consume os x w = Some (r, w')"
proof -
  have "\<exists>q. loop (consume_body os (efd_fd x)) w = Some q"
    by (rule loop_terminates [where I = "\<lambda>_. True" and R = "measure m"])
      (use assms in \<open>auto simp: consume_body_def eventfd_interrupts_end_def
        split: prod.splits sys_ret.splits if_splits\<close>)
  then show ?thesis by (auto simp: consume_def)
qed

section \<open>Properties\<close>

lemma sample_eventfd_contract: "eventfd_contract sample_os fd k_ctr"
  by (auto simp: eventfd_contract_def sample_os_def interruptible_def unat_of_nat Let_def
      split: if_splits)

lemma sample_eventfd_interrupts: "eventfd_interrupts_end sample_os fd k_intr"
  by (auto simp: eventfd_interrupts_end_def sample_os_def interruptible_def Let_def split: if_splits)

lemma eventfd_accumulates_facts:
  assumes "eventfd_contract os (efd_fd x) ctr" and "eventfd_interrupts_end os (efd_fd x) m"
    and "efd_valid x" and "v \<noteq> 0"
  shows "\<exists>r w1. notify os x v w = Some (r, w1)
      \<and> ctr w1 = ctr w + (if efo_success r then unat v else 0)
      \<and> (efo_success r \<or> efo_error_number r \<noteq> EAGAIN \<or> 2 ^ 64 - 1 \<le> ctr w + unat v)"
    and "\<exists>r w1. consume os x w = Some (r, w1)
      \<and> ctr w1 = (if efr_success r then 0 else ctr w)
      \<and> unat (efr_value r) = (if efr_success r then ctr w else 0)
      \<and> (efr_success r \<and> ctr w > 0 \<or> \<not> efr_success r \<and> (efr_error_number r \<noteq> EAGAIN \<or> ctr w = 0))"
proof -
  obtain r w1 where n: "notify os x v w = Some (r, w1)" using notify_returns [OF assms(2)] by blast
  from notify_post [OF assms(1,3,4) n] n
  show "\<exists>r w1. notify os x v w = Some (r, w1)
      \<and> ctr w1 = ctr w + (if efo_success r then unat v else 0)
      \<and> (efo_success r \<or> efo_error_number r \<noteq> EAGAIN \<or> 2 ^ 64 - 1 \<le> ctr w + unat v)" by auto
  obtain r w1 where c: "consume os x w = Some (r, w1)" using consume_returns [OF assms(2)] by blast
  from consume_post [OF assms(1,3) c] c
  show "\<exists>r w1. consume os x w = Some (r, w1)
      \<and> ctr w1 = (if efr_success r then 0 else ctr w)
      \<and> unat (efr_value r) = (if efr_success r then ctr w else 0)
      \<and> (efr_success r \<and> ctr w > 0 \<or> \<not> efr_success r \<and> (efr_error_number r \<noteq> EAGAIN \<or> ctr w = 0))"
    by auto
qed

text \<open>C28: On a valid eventfd both operations return. A \<open>notify\<close> that succeeds adds its value to
  the counter, one that fails leaves it alone, and \<open>EAGAIN\<close> is only reported when the
  counter is saturated and hence not zero; a \<open>consume\<close> that succeeds returns exactly what
  was accumulated and resets it, and reports \<open>EAGAIN\<close> only when there is nothing.\<close>

theorem eventfd_accumulates:
  assumes "eventfd_contract os (efd_fd x) ctr" and "eventfd_interrupts_end os (efd_fd x) m"
    and "efd_valid x" and "v \<noteq> 0"
  shows "(\<exists>r w1. notify os x v w = Some (r, w1)
      \<and> ctr w1 = ctr w + (if efo_success r then unat v else 0)
      \<and> (efo_success r \<or> efo_error_number r \<noteq> EAGAIN \<or> 2 ^ 64 - 1 \<le> ctr w + unat v))
    \<and> (\<exists>r w1. consume os x w = Some (r, w1)
      \<and> ctr w1 = (if efr_success r then 0 else ctr w)
      \<and> unat (efr_value r) = (if efr_success r then ctr w else 0)
      \<and> (efr_success r \<and> ctr w > 0 \<or> \<not> efr_success r \<and> (efr_error_number r \<noteq> EAGAIN \<or> ctr w = 0)))"
  using eventfd_accumulates_facts [OF assms] by blast

theorem eventfd_accumulates_witness:
  "\<exists>r w1. notify sample_os \<lparr>efd_fd = 4, efd_error_number = 0\<rparr> 3 (sample_world\<lparr>k_ctr := 2\<rparr>) = Some (r, w1)
     \<and> k_ctr w1 = 2 + (if efo_success r then 3 else 0)"
  using eventfd_accumulates [OF sample_eventfd_contract sample_eventfd_interrupts,
      of "\<lparr>efd_fd = 4, efd_error_number = 0\<rparr>" 3 "sample_world\<lparr>k_ctr := 2\<rparr>"]
  by (fastforce simp: efd_valid_def)

end
