(* ===== verification/Processing.thy ===== *)
theory Processing
  imports Thread_Pool Event_Fd "HOL-Library.Multiset"
begin

text \<open>
  Business processing and its dispatcher: \<open>include/netpulse/server/processing.hpp\<close>,
  \<open>src/server/processing.cpp\<close>, \<open>include/netpulse/server/processing_dispatcher.hpp\<close> and
  \<open>src/server/processing_dispatcher.cpp\<close>. The dispatcher submits frames to the thread
  pool; a worker processes a frame, appends the result to the completed list under its
  mutex and then notifies the event loop through the eventfd.
\<close>

section \<open>Processing a frame\<close>

type_synonym ConnectionId = u64

record ProcessingTask =
  task_client_fd :: fd
  task_connection_id :: ConnectionId
  task_payload :: bytes

record ProcessingResult =
  res_client_fd :: fd
  res_connection_id :: ConnectionId
  res_response :: bytes

definition kAckResponse :: string where
  "kAckResponse = ''ACK from NetPulse!''"

definition processFrame :: "ProcessingTask \<Rightarrow> ProcessingResult" where
  "processFrame task =
     (let response = map of_char kAckResponse
      in \<lparr>res_client_fd = task_client_fd task, res_connection_id = task_connection_id task,
          res_response = response\<rparr>)"

section \<open>The dispatcher\<close>

text \<open>
  The task submitted to the pool is the closure \<open>publish(processFrame(task))\<close>. It has two
  atomic stages: \<open>RunTask\<close> computes the result and appends it to the completed list,
  \<open>Notifying\<close> writes to the eventfd.
\<close>

datatype dispatch_task = RunTask ProcessingTask | Notifying

record ProcessingDispatcher =
  pd_notifier :: EventFd
  pd_completed :: "ProcessingResult list"
  pd_error_number :: errno
  pd_pool :: "dispatch_task ThreadPool"

text \<open>The constructor: the notifier is created first, then the pool, which may throw and
  then leaves the notifier to its destructor.\<close>

definition make_ProcessingDispatcher ::
  "'w os \<Rightarrow> (nat \<Rightarrow> bool) \<Rightarrow> nat \<Rightarrow> nat \<Rightarrow> 'w \<Rightarrow> (cxx_exception + ProcessingDispatcher) \<times> 'w" where
  "make_ProcessingDispatcher os spawn worker_count task_queue_capacity w =
     (case make_EventFd os 0 w of
        (notifier, w1) \<Rightarrow>
          (case make_ThreadPool spawn worker_count task_queue_capacity of
             Inl ex \<Rightarrow> (Inl ex, efd_destroy os notifier w1)
           | Inr pool \<Rightarrow>
               if \<not> efd_valid notifier then
                 (Inr \<lparr>pd_notifier = notifier, pd_completed = [],
                       pd_error_number = efd_error_number notifier, pd_pool = pool_stop pool\<rparr>, w1)
               else
                 (Inr \<lparr>pd_notifier = notifier, pd_completed = [],
                       pd_error_number = 0, pd_pool = pool\<rparr>, w1)))"

definition pd_valid :: "ProcessingDispatcher \<Rightarrow> bool" where
  "pd_valid d \<longleftrightarrow> efd_valid (pd_notifier d) \<and> pd_error_number d = 0"

definition pd_errorNumber :: "ProcessingDispatcher \<Rightarrow> errno" where
  "pd_errorNumber d =
     (if pd_error_number d \<noteq> 0 then pd_error_number d else efd_error_number (pd_notifier d))"

definition pd_notificationFd :: "ProcessingDispatcher \<Rightarrow> fd" where
  "pd_notificationFd d = efd_fd (pd_notifier d)"

text \<open>
  The test of \<open>valid()\<close> and the submission are one step; an error that a worker records
  between them is seen by the next call.
\<close>

definition pd_trySubmit ::
  "ProcessingTask \<Rightarrow> ProcessingDispatcher \<Rightarrow> SubmitStatus \<times> ProcessingDispatcher" where
  "pd_trySubmit task d =
     (if task_client_fd task < 0 \<or> task_connection_id task = 0 then (sub_InvalidTask, d)
      else if \<not> pd_valid d then (sub_Stopped, d)
      else
        (case pool_trySubmit (Some (RunTask task)) (pd_pool d) of
           (st, pool) \<Rightarrow> (st, d\<lparr>pd_pool := pool\<rparr>)))"

definition pd_consumeNotifications ::
  "'w os \<Rightarrow> ProcessingDispatcher \<Rightarrow> 'w \<Rightarrow> (EventFdReadResult \<times> 'w) option" where
  "pd_consumeNotifications os d w = consume os (pd_notifier d) w"

text \<open>The loop of \<open>takeCompleted\<close> that moves the swapped-out deque into a vector.\<close>

fun move_results :: "ProcessingResult list \<Rightarrow> ProcessingResult list \<Rightarrow> ProcessingResult list" where
  "move_results [] results = results"
| "move_results (r # local_results) results = move_results local_results (results @ [r])"

definition pd_takeCompleted ::
  "ProcessingDispatcher \<Rightarrow> ProcessingResult list \<times> ProcessingDispatcher" where
  "pd_takeCompleted d =
     (let local_results = pd_completed d
      in (move_results local_results [], d\<lparr>pd_completed := []\<rparr>))"

definition pd_stop :: "ProcessingDispatcher \<Rightarrow> ProcessingDispatcher" where
  "pd_stop d = d\<lparr>pd_pool := pool_stop (pd_pool d)\<rparr>"

text \<open>
  The state the tasks share: the completed list, the error number and the world. The two
  stages of \<open>publish\<close>, the second with its \<open>compare_exchange_strong\<close>: the retries of
  \<open>notify\<close> and the exchange are one step, since interrupted writes change nothing and the
  exchange only ever sets an error number that was zero.
\<close>

type_synonym 'w shared = "ProcessingResult list \<times> errno \<times> 'w"

definition publish_push :: "ProcessingResult \<Rightarrow> 'w shared \<Rightarrow> 'w shared" where
  "publish_push result = (\<lambda>(completed, err, w). (completed @ [result], err, w))"

definition publish_notify :: "'w os \<Rightarrow> EventFd \<Rightarrow> 'w shared \<Rightarrow> ('w shared) option" where
  "publish_notify os notifier = (\<lambda>(completed, err, w).
     case notify os notifier 1 w of
       None \<Rightarrow> None
     | Some (notify_result, w') \<Rightarrow>
         if \<not> efo_success notify_result \<and> efo_error_number notify_result \<noteq> EAGAIN
            \<and> efo_error_number notify_result \<noteq> EWOULDBLOCK then
           Some (completed, if err = 0 then efo_error_number notify_result else err, w')
         else Some (completed, err, w'))"

definition dispatch_exec :: "'w os \<Rightarrow> EventFd \<Rightarrow> (dispatch_task, 'w shared) exec" where
  "dispatch_exec os notifier task sh =
     (case task of
        RunTask t \<Rightarrow> Some (Continue Notifying, publish_push (processFrame t) sh)
      | Notifying \<Rightarrow> map_option (\<lambda>sh'. (Finished, sh')) (publish_notify os notifier sh))"

section \<open>Runs of the dispatcher\<close>

text \<open>
  The consumer is the event loop: it consumes a notification and then takes the completed
  results. Between any two of its actions and of the submissions the workers make steps.
\<close>

datatype consumer = Idle | Taking

fun is_background :: "'a pool_event \<Rightarrow> bool" where
  "is_background (Submit _ _) = False"
| "is_background Stop = False"
| "is_background _ = True"

text \<open>
  \<open>dispatcher_run os env d0 w0 acc taken (d, w, pc)\<close>: from \<open>d0\<close> the dispatcher can reach \<open>d\<close>,
  having accepted the tasks \<open>acc\<close> and handed out the results \<open>taken\<close>. In between the
  event loop makes the system calls \<open>env\<close> that do not concern the dispatcher.
\<close>

inductive background_step ::
  "'w os \<Rightarrow> ProcessingDispatcher \<times> 'w \<Rightarrow> ProcessingDispatcher \<times> 'w \<Rightarrow> bool" for os where
  worker: "pool_step (dispatch_exec os (pd_notifier d))
      (pd_pool d, pd_completed d, pd_error_number d, w) ev (pool, completed, err, w') \<Longrightarrow>
    is_background ev \<Longrightarrow>
    background_step os (d, w)
      (d\<lparr>pd_pool := pool, pd_completed := completed, pd_error_number := err\<rparr>, w')"

inductive dispatcher_run ::
  "'w os \<Rightarrow> ('w \<Rightarrow> 'w \<Rightarrow> bool) \<Rightarrow> ProcessingDispatcher \<Rightarrow> 'w \<Rightarrow> ProcessingTask list
     \<Rightarrow> ProcessingResult list \<Rightarrow> ProcessingDispatcher \<times> 'w \<times> consumer \<Rightarrow> bool"
  for os env d0 w0 where
  start: "dispatcher_run os env d0 w0 [] [] (d0, w0, Idle)"
| background: "dispatcher_run os env d0 w0 acc taken (d, w, pc) \<Longrightarrow> background_step os (d, w) (d', w') \<Longrightarrow>
    dispatcher_run os env d0 w0 acc taken (d', w', pc)"
| submit: "dispatcher_run os env d0 w0 acc taken (d, w, pc) \<Longrightarrow> pd_trySubmit task d = (st, d') \<Longrightarrow>
    dispatcher_run os env d0 w0 (if st = sub_Success then acc @ [task] else acc) taken (d', w, pc)"
| other: "dispatcher_run os env d0 w0 acc taken (d, w, pc) \<Longrightarrow> env w w' \<Longrightarrow>
    dispatcher_run os env d0 w0 acc taken (d, w', pc)"
| consume: "dispatcher_run os env d0 w0 acc taken (d, w, Idle) \<Longrightarrow>
    pd_consumeNotifications os d w = Some (r, w') \<Longrightarrow>
    dispatcher_run os env d0 w0 acc taken (d, w', if efr_success r then Taking else Idle)"
| take: "dispatcher_run os env d0 w0 acc taken (d, w, Taking) \<Longrightarrow> pd_takeCompleted d = (rs, d') \<Longrightarrow>
    dispatcher_run os env d0 w0 acc (taken @ rs) (d', w, Idle)"

section \<open>Every accepted task yields one result\<close>

lemma move_results_append [simp]: "move_results rs results = results @ rs"
  by (induction rs arbitrary: results) simp_all

lemma pd_takeCompleted_eq: "pd_takeCompleted d = (pd_completed d, d\<lparr>pd_completed := []\<rparr>)"
  by (simp add: pd_takeCompleted_def)

text \<open>The frames that were accepted and have no result yet: queued or being processed.\<close>

fun task_frames :: "dispatch_task \<Rightarrow> ProcessingTask multiset" where
  "task_frames (RunTask t) = {#t#}"
| "task_frames Notifying = {#}"

fun worker_frames :: "dispatch_task Worker \<Rightarrow> ProcessingTask multiset" where
  "worker_frames (Executing t) = task_frames t"
| "worker_frames _ = {#}"

definition open_frames :: "dispatch_task ThreadPool \<Rightarrow> ProcessingTask multiset" where
  "open_frames p = sum_list (map task_frames (bq_queue (tp_tasks p)))
     + sum_list (map worker_frames (tp_workers p))"

lemma sum_list_update_mset:
  fixes f :: "'a \<Rightarrow> 'b multiset"
  shows "i < length xs \<Longrightarrow>
    sum_list (map f (xs[i := y])) + f (xs ! i) = sum_list (map f xs) + f y"
  by (induction xs arbitrary: i) (auto simp: nth_Cons ac_simps split: nat.splits)

lemma open_frames_set_worker:
  "i < length (tp_workers p) \<Longrightarrow>
     open_frames (set_worker i w p) + worker_frames (tp_workers p ! i) = open_frames p + worker_frames w"
  using sum_list_update_mset [of i "tp_workers p" worker_frames w]
  by (simp add: open_frames_def set_worker_def ac_simps)

lemma open_frames_wake_all:
  "sum_list (map worker_frames (wake_all ws)) = sum_list (map worker_frames ws)"
  by (induction ws) (auto simp: wake_all_def)

lemma open_frames_notify [simp]:
  "open_frames (p\<lparr>tp_notify_one := n\<rparr>) = open_frames p"
  "open_frames (p\<lparr>tp_notify_all := n\<rparr>) = open_frames p"
  by (simp_all add: open_frames_def)

lemma publish_notify_completed:
  "publish_notify os x (c, err, w) = Some (c', err', w') \<Longrightarrow> c' = c"
  by (auto simp: publish_notify_def split: option.splits if_splits)

lemma worker_step_frames:
  assumes i: "i < length (tp_workers p)"
    and step: "workerLoop_step (dispatch_exec os x) i (p, c, err, w) = Some (p', c', err', w')"
  shows "image_mset processFrame (open_frames p) + mset c
    = image_mset processFrame (open_frames p') + mset c'"
proof (cases "tp_workers p ! i")
  case Checking
  show ?thesis
  proof (cases "bq_queue (tp_tasks p)")
    case Nil
    define v where "v = (if bq_closed (tp_tasks p) then Exited else Sleeping :: dispatch_task Worker)"
    have "p' = set_worker i v p" "c' = c"
      using step Checking bq.pop_empty [OF Nil]
      by (auto simp: workerLoop_step_def v_def split: if_splits)
    moreover have "worker_frames v = {#}" by (simp add: v_def)
    ultimately show ?thesis using open_frames_set_worker [OF i, of v] Checking by simp
  next
    case (Cons t ts)
    let ?p = "p\<lparr>tp_tasks := (tp_tasks p)\<lparr>bq_queue := ts\<rparr>\<rparr>"
    have "p' = set_worker i (Executing t) ?p" "c' = c"
      using step Checking Cons by (auto simp: workerLoop_step_def waitPop_def)
    moreover have "open_frames p = open_frames ?p + task_frames t"
      using Cons by (simp add: open_frames_def ac_simps)
    ultimately show ?thesis
      using open_frames_set_worker [of i ?p "Executing t"] Checking i by simp
  qed
next
  case (Executing t)
  show ?thesis
  proof (cases t)
    case (RunTask f)
    with step Executing have "p' = set_worker i (Executing Notifying) p" "c' = c @ [processFrame f]"
      by (auto simp: workerLoop_step_def dispatch_exec_def publish_push_def)
    moreover from this open_frames_set_worker [OF i, of "Executing Notifying"] Executing RunTask
    have "open_frames p = add_mset f (open_frames p')" by simp
    ultimately show ?thesis by simp
  next
    case Notifying
    with step Executing have "p' = set_worker i Checking p" "c' = c"
      by (auto simp: workerLoop_step_def dispatch_exec_def dest!: publish_notify_completed
          split: option.splits)
    with open_frames_set_worker [OF i, of Checking] Executing Notifying show ?thesis by simp
  qed
qed (use step in \<open>auto simp: workerLoop_step_def\<close>)

lemma pool_step_frames:
  assumes "pool_step (dispatch_exec os x) (p, c, err, w) ev (p', c', err', w')" and "is_background ev"
  shows "image_mset processFrame (open_frames p) + mset c
    = image_mset processFrame (open_frames p') + mset c'"
  using assms
proof cases
  case (notify_one i)
  with open_frames_set_worker [of i "p\<lparr>tp_notify_one := tp_notify_one p - 1\<rparr>" Checking]
  show ?thesis by simp
next
  case (spurious i)
  with open_frames_set_worker [of i p Checking] show ?thesis by simp
next
  case notify_all
  then show ?thesis by (simp add: open_frames_def open_frames_wake_all)
next
  case (work i)
  with worker_step_frames show ?thesis by fastforce
qed auto

lemma background_frames:
  assumes "background_step os (d, w) (d', w')"
  shows "image_mset processFrame (open_frames (pd_pool d)) + mset (pd_completed d)
    = image_mset processFrame (open_frames (pd_pool d')) + mset (pd_completed d')"
  using assms by cases (auto dest: pool_step_frames)

lemma submit_frames:
  assumes "pd_trySubmit task d = (st, d')"
  shows "open_frames (pd_pool d') =
      (if st = sub_Success then add_mset task (open_frames (pd_pool d)) else open_frames (pd_pool d))"
    and "pd_completed d' = pd_completed d"
  using assms
  by (auto simp: pd_trySubmit_def pool_trySubmit_def tryPush_def open_frames_def
      split: if_splits prod.splits)

lemma dispatcher_run_frames:
  assumes "dispatcher_run os env d0 w0 acc taken (d, w, pc)"
    and "open_frames (pd_pool d0) = {#}" and "pd_completed d0 = []"
  shows "image_mset processFrame (mset acc)
    = mset taken + mset (pd_completed d) + image_mset processFrame (open_frames (pd_pool d))"
  using assms(1)
proof (induction acc taken "(d, w, pc)" arbitrary: d w pc rule: dispatcher_run.induct)
  case start
  then show ?case using assms(2,3) by simp
next
  case (background acc taken d w pc d' w')
  then show ?case using background_frames [OF background(3)] by (simp add: ac_simps)
next
  case (submit acc taken d w pc task st d')
  then show ?case using submit_frames [OF submit(3)] by auto
next
  case (other acc taken d w pc w')
  then show ?case by simp
next
  case (consume acc taken d w r w')
  then show ?case by simp
next
  case (take acc taken d w rs d')
  then show ?case by (auto simp: pd_takeCompleted_eq)
qed

section \<open>No completed result is forgotten\<close>

abbreviation notifiers :: "dispatch_task ThreadPool \<Rightarrow> nat" where
  "notifiers p \<equiv> num (\<lambda>w. w = Executing Notifying) (tp_workers p)"

definition result_announced ::
  "('w \<Rightarrow> nat) \<Rightarrow> ProcessingDispatcher \<Rightarrow> 'w \<Rightarrow> consumer \<Rightarrow> bool" where
  "result_announced ctr d w pc \<longleftrightarrow>
     (pd_completed d \<noteq> [] \<longrightarrow>
        pc = Taking \<or> 0 < ctr w \<or> 0 < notifiers (pd_pool d) \<or> pd_error_number d \<noteq> 0)"

lemma notifiers_set_worker:
  "i < length (tp_workers p) \<Longrightarrow>
     notifiers (set_worker i w p) + (if tp_workers p ! i = Executing Notifying then 1 else 0)
       = notifiers p + (if w = Executing Notifying then 1 else 0)"
  using num_update [of i "tp_workers p" "\<lambda>w. w = Executing Notifying" w] by (simp add: set_worker_def)

lemma notifiers_wake_all [simp]:
  "num (\<lambda>w. w = Executing Notifying) (wake_all ws) = num (\<lambda>w. w = Executing Notifying) ws"
  by (induction ws) (auto simp: wake_all_def)

lemma publish_notify_announces:
  assumes os: "eventfd_contract os (efd_fd x) ctr" and x: "efd_valid x"
    and "publish_notify os x (c, err, w) = Some (c', err', w')"
  shows "0 < ctr w' \<or> err' \<noteq> 0"
proof -
  from assms(3) obtain r where r: "notify os x 1 w = Some (r, w')"
    by (auto simp: publish_notify_def split: option.splits if_splits)
  from notify_post [OF os x _ r] assms(3) r show ?thesis
    by (auto simp: publish_notify_def split: if_splits)
qed

lemma publish_notify_error: "publish_notify os x (c, err, w) = Some (c', err', w') \<Longrightarrow> err \<noteq> 0 \<Longrightarrow> err' = err"
  by (auto simp: publish_notify_def split: option.splits if_splits)

lemma worker_step_announces:
  assumes os: "eventfd_contract os (efd_fd x) ctr" and x: "efd_valid x"
    and i: "i < length (tp_workers p)"
    and step: "workerLoop_step (dispatch_exec os x) i (p, c, err, w) = Some (p', c', err', w')"
    and ann: "c \<noteq> [] \<longrightarrow> pc = Taking \<or> 0 < ctr w \<or> 0 < notifiers p \<or> err \<noteq> 0"
  shows "c' \<noteq> [] \<longrightarrow> pc = Taking \<or> 0 < ctr w' \<or> 0 < notifiers p' \<or> err' \<noteq> 0"
proof (cases "tp_workers p ! i")
  case Checking
  show ?thesis
  proof (cases "bq_queue (tp_tasks p)")
    case Nil
    then obtain v where "p' = set_worker i v p" "v \<noteq> Executing Notifying" "c' = c" "err' = err" "w' = w"
      using step Checking bq.pop_empty [OF Nil] by (auto simp: workerLoop_step_def split: if_splits)
    with notifiers_set_worker [OF i, of v] Checking ann show ?thesis by simp
  next
    case (Cons t ts)
    let ?p = "p\<lparr>tp_tasks := (tp_tasks p)\<lparr>bq_queue := ts\<rparr>\<rparr>"
    have "p' = set_worker i (Executing t) ?p" "c' = c" "err' = err" "w' = w"
      using step Checking Cons by (auto simp: workerLoop_step_def waitPop_def)
    with notifiers_set_worker [of i ?p "Executing t"] Checking i ann show ?thesis by auto
  qed
next
  case (Executing t)
  show ?thesis
  proof (cases t)
    case (RunTask f)
    with step Executing have "p' = set_worker i (Executing Notifying) p"
      by (auto simp: workerLoop_step_def dispatch_exec_def publish_push_def)
    with notifiers_set_worker [OF i, of "Executing Notifying"] Executing RunTask show ?thesis by simp
  next
    case Notifying
    with step Executing have "publish_notify os x (c, err, w) = Some (c', err', w')"
      by (auto simp: workerLoop_step_def dispatch_exec_def split: option.splits)
    from publish_notify_announces [OF os x this] show ?thesis by blast
  qed
qed (use step in \<open>auto simp: workerLoop_step_def\<close>)

lemma pool_step_announces:
  assumes "pool_step (dispatch_exec os x) (p, c, err, w) ev (p', c', err', w')" and "is_background ev"
    and os: "eventfd_contract os (efd_fd x) ctr" and x: "efd_valid x"
    and ann: "c \<noteq> [] \<longrightarrow> pc = Taking \<or> 0 < ctr w \<or> 0 < notifiers p \<or> err \<noteq> 0"
  shows "c' \<noteq> [] \<longrightarrow> pc = Taking \<or> 0 < ctr w' \<or> 0 < notifiers p' \<or> err' \<noteq> 0"
  using assms(1,2)
proof cases
  case (notify_one i)
  with notifiers_set_worker [of i "p\<lparr>tp_notify_one := tp_notify_one p - 1\<rparr>" Checking] ann
  show ?thesis by simp
next
  case (spurious i)
  with notifiers_set_worker [of i p Checking] ann show ?thesis by simp
next
  case (work i)
  with worker_step_announces [OF os x _ _ ann] show ?thesis by blast
qed (use ann in auto)

lemma background_announced:
  assumes "background_step os (d, w) (d', w')"
    and os: "eventfd_contract os (efd_fd (pd_notifier d)) ctr" and x: "efd_valid (pd_notifier d)"
    and ann: "result_announced ctr d w pc"
  shows "result_announced ctr d' w' pc"
  using assms(1)
proof cases
  case (worker ev pool completed err)
  from pool_step_announces [OF worker(2,3) os x ann [unfolded result_announced_def]] worker(1)
  show ?thesis by (simp add: result_announced_def)
qed

lemma background_notifier: "background_step os (d, w) (d', w') \<Longrightarrow> pd_notifier d' = pd_notifier d"
  by (auto elim: background_step.cases)

lemma submit_keeps:
  "pd_trySubmit task d = (st, d') \<Longrightarrow>
     pd_notifier d' = pd_notifier d \<and> pd_error_number d' = pd_error_number d
     \<and> notifiers (pd_pool d') = notifiers (pd_pool d)"
  by (auto simp: pd_trySubmit_def pool_trySubmit_def split: if_splits prod.splits)

lemma dispatcher_run_announced:
  assumes "dispatcher_run os env d0 w0 acc taken (d, w, pc)"
    and os: "eventfd_contract os (efd_fd (pd_notifier d0)) ctr" and x: "efd_valid (pd_notifier d0)"
    and "pd_completed d0 = []" and env: "\<And>v v'. env v v' \<Longrightarrow> ctr v' = ctr v"
  shows "pd_notifier d = pd_notifier d0 \<and> result_announced ctr d w pc"
  using assms(1)
proof (induction acc taken "(d, w, pc)" arbitrary: d w pc rule: dispatcher_run.induct)
  case start
  then show ?case using assms(4) by (simp add: result_announced_def)
next
  case (background acc taken d w pc d' w')
  then show ?case
    using background_announced [OF background(3), of ctr pc] background_notifier [OF background(3)] os x
    by simp
next
  case (submit acc taken d w pc task st d')
  then show ?case
    using submit_keeps [OF submit(3)] submit_frames(2) [OF submit(3)] by (simp add: result_announced_def)
next
  case (other acc taken d w pc w')
  then show ?case using env [OF other(3)] by (simp add: result_announced_def)
next
  case (consume acc taken d w r w')
  then have "consume os (pd_notifier d) w = Some (r, w')" "pd_notifier d = pd_notifier d0"
    by (simp_all add: pd_consumeNotifications_def)
  with consume_post [of os "pd_notifier d" ctr w r w'] os x consume(2) show ?case
    by (auto simp: result_announced_def)
next
  case (take acc taken d w rs d')
  then show ?case by (auto simp: pd_takeCompleted_eq result_announced_def)
qed

section \<open>Properties\<close>

lemma sum_list_replicate_empty [simp]: "sum_list (replicate n {#}) = ({#} :: 'a multiset)"
  by (induction n) simp_all

lemma make_ProcessingDispatcher_start:
  assumes "make_ProcessingDispatcher os spawn n c w = (Inr d, w')"
  shows "open_frames (pd_pool d) = {#}" and "pd_completed d = []"
  using assms
  by (auto simp: make_ProcessingDispatcher_def open_frames_def make_ThreadPool_cases pool_stop_def
      bq_close_def split: prod.splits sum.splits if_splits)

lemma dispatcher_exactly_once_facts:
  assumes "make_ProcessingDispatcher os spawn worker_count capacity w = (Inr d0, w0)"
    and "dispatcher_run os env d0 w0 accepted taken (d, w', pc)"
  shows "image_mset processFrame (mset accepted) =
      mset taken + mset (pd_completed d) + image_mset processFrame (open_frames (pd_pool d))"
    and "set taken \<union> set (pd_completed d) \<subseteq> processFrame ` set accepted"
proof -
  note start = make_ProcessingDispatcher_start [OF assms(1)]
  from dispatcher_run_frames [OF assms(2) start]
  show eq: "image_mset processFrame (mset accepted) =
      mset taken + mset (pd_completed d) + image_mset processFrame (open_frames (pd_pool d))" .
  have "set_mset (mset taken + mset (pd_completed d)) \<subseteq> set_mset (image_mset processFrame (mset accepted))"
    unfolding eq by auto
  then show "set taken \<union> set (pd_completed d) \<subseteq> processFrame ` set accepted" by simp
qed

text \<open>C4: Exactly once. In every state a new dispatcher can reach, whatever the interleaving of
  submissions, workers and the event loop, the accepted tasks correspond one to one to
  the results handed out, the results waiting to be taken, and the tasks still queued
  or being processed. Every result thus carries the descriptor and connection id of a
  task that was accepted, and no task is answered twice.\<close>

theorem dispatcher_exactly_once:
  assumes "make_ProcessingDispatcher os spawn worker_count capacity w = (Inr d0, w0)"
    and "dispatcher_run os env d0 w0 accepted taken (d, w', pc)"
  shows "image_mset processFrame (mset accepted) =
      mset taken + mset (pd_completed d) + image_mset processFrame (open_frames (pd_pool d))
    \<and> set taken \<union> set (pd_completed d) \<subseteq> processFrame ` set accepted"
  using dispatcher_exactly_once_facts [OF assms] by blast

definition sample_dispatcher :: ProcessingDispatcher where
  "sample_dispatcher = \<lparr>pd_notifier = \<lparr>efd_fd = 4, efd_error_number = 0\<rparr>, pd_completed = [],
     pd_error_number = 0,
     pd_pool = \<lparr>tp_tasks = \<lparr>bq_capacity = 2, bq_queue = [], bq_closed = False\<rparr>,
       tp_workers = [Checking], tp_stopped = False, tp_notify_one = 0, tp_notify_all = 0\<rparr>\<rparr>"

definition sample_task :: ProcessingTask where
  "sample_task = \<lparr>task_client_fd = 7, task_connection_id = 1, task_payload = [1, 2]\<rparr>"

definition sample_started :: kernel where
  "sample_started = sample_world\<lparr>k_open := {4, 7}\<rparr>"

lemma sample_dispatcher_made:
  "make_ProcessingDispatcher sample_os (\<lambda>_. True) 1 2 sample_world = (Inr sample_dispatcher, sample_started)"
proof -
  have "make_EventFd sample_os 0 sample_world = (\<lparr>efd_fd = 4, efd_error_number = 0\<rparr>, sample_started)"
    by (simp add: make_EventFd_def sample_os_def sample_world_def sample_started_def insert_commute)
  moreover have "make_ThreadPool (\<lambda>_. True) 1 2 = Inr (pd_pool sample_dispatcher)"
    by (simp add: make_ThreadPool_cases sample_dispatcher_def)
  ultimately show ?thesis
    by (simp add: make_ProcessingDispatcher_def efd_valid_def sample_dispatcher_def)
qed

definition sample_busy :: ProcessingDispatcher where
  "sample_busy = sample_dispatcher\<lparr>pd_completed := [processFrame sample_task],
     pd_pool := \<lparr>tp_tasks = \<lparr>bq_capacity = 2, bq_queue = [], bq_closed = False\<rparr>,
       tp_workers = [Executing Notifying], tp_stopped = False, tp_notify_one = 1, tp_notify_all = 0\<rparr>\<rparr>"

lemma sample_dispatcher_busy:
  "dispatcher_run sample_os (\<lambda>_ _. False) sample_dispatcher sample_started [sample_task] [] (sample_busy, sample_started, Idle)"
proof -
  let ?d1 = "sample_dispatcher\<lparr>pd_pool := (pd_pool sample_dispatcher)\<lparr>tp_tasks :=
      \<lparr>bq_capacity = 2, bq_queue = [RunTask sample_task], bq_closed = False\<rparr>, tp_notify_one := 1\<rparr>\<rparr>"
  let ?d2 = "?d1\<lparr>pd_pool := (pd_pool ?d1)\<lparr>tp_tasks := \<lparr>bq_capacity = 2, bq_queue = [], bq_closed = False\<rparr>,
      tp_workers := [Executing (RunTask sample_task)]\<rparr>\<rparr>"
  have "pd_trySubmit sample_task sample_dispatcher = (sub_Success, ?d1)"
    by (simp add: pd_trySubmit_def pd_valid_def efd_valid_def pool_trySubmit_def tryPush_def
        sample_task_def sample_dispatcher_def)
  from dispatcher_run.submit [OF dispatcher_run.start this]
  have 1: "dispatcher_run sample_os (\<lambda>_ _. False) sample_dispatcher sample_started [sample_task] [] (?d1, sample_started, Idle)"
    by simp
  have "background_step sample_os (?d1, sample_started)
      (?d1\<lparr>pd_pool := pd_pool ?d2, pd_completed := [], pd_error_number := 0\<rparr>, sample_started)"
    by (rule background_step.worker [where ev = "Work 0"])
      (auto intro!: pool_step.work simp: workerLoop_step_def waitPop_def set_worker_def sample_dispatcher_def)
  then have "background_step sample_os (?d1, sample_started) (?d2, sample_started)"
    by (simp add: sample_dispatcher_def)
  from dispatcher_run.background [OF 1 this]
  have 2: "dispatcher_run sample_os (\<lambda>_ _. False) sample_dispatcher sample_started [sample_task] [] (?d2, sample_started, Idle)" .
  have "background_step sample_os (?d2, sample_started)
      (?d2\<lparr>pd_pool := pd_pool sample_busy, pd_completed := [processFrame sample_task], pd_error_number := 0\<rparr>,
       sample_started)"
    by (rule background_step.worker [where ev = "Work 0"])
      (auto intro!: pool_step.work simp: workerLoop_step_def dispatch_exec_def publish_push_def
        set_worker_def sample_dispatcher_def sample_busy_def)
  then have "background_step sample_os (?d2, sample_started) (sample_busy, sample_started)"
    by (simp add: sample_dispatcher_def sample_busy_def)
  from dispatcher_run.background [OF 2 this] show ?thesis .
qed

theorem dispatcher_exactly_once_witness:
  "set [] \<union> set (pd_completed sample_busy) \<subseteq> processFrame ` set [sample_task]
   \<and> image_mset processFrame (mset [sample_task]) =
      mset [] + mset (pd_completed sample_busy) + image_mset processFrame (open_frames (pd_pool sample_busy))"
  using dispatcher_exactly_once [OF sample_dispatcher_made sample_dispatcher_busy] by blast

text \<open>C11: No completed result is forgotten. In every state a new dispatcher with a working
  eventfd can reach: while a result is waiting to be taken, the eventfd is readable, or a
  worker is about to write to it, or the event loop has consumed a notification and is
  about to take the results, or the dispatcher has recorded an error of the eventfd.\<close>

theorem completed_result_announced:
  assumes "make_ProcessingDispatcher os spawn worker_count capacity w = (Inr d0, w0)"
    and "eventfd_contract os (pd_notificationFd d0) ctr" and "pd_valid d0"
    and "dispatcher_run os env d0 w0 accepted taken (d, w', pc)" and "pd_completed d \<noteq> []"
    and "\<And>v v'. env v v' \<Longrightarrow> ctr v' = ctr v"
  shows "0 < ctr w' \<or> Executing Notifying \<in> set (tp_workers (pd_pool d)) \<or> pc = Taking
    \<or> pd_error_number d \<noteq> 0"
proof -
  have "result_announced ctr d w' pc"
    using dispatcher_run_announced [OF assms(4)] assms(2,3,6) make_ProcessingDispatcher_start [OF assms(1)]
    by (simp add: pd_notificationFd_def pd_valid_def)
  moreover have "0 < notifiers (pd_pool d) \<longleftrightarrow> Executing Notifying \<in> set (tp_workers (pd_pool d))"
    using num_zero_iff [of "\<lambda>w. w = Executing Notifying"] by (metis neq0_conv)
  ultimately show ?thesis using assms(5) by (auto simp: result_announced_def)
qed

theorem completed_result_announced_witness:
  "pd_completed sample_busy \<noteq> [] \<and>
   (0 < k_ctr sample_started \<or> Executing Notifying \<in> set (tp_workers (pd_pool sample_busy)) \<or> Idle = Taking
    \<or> pd_error_number sample_busy \<noteq> 0)"
proof -
  have v: "pd_valid sample_dispatcher" by (simp add: pd_valid_def efd_valid_def sample_dispatcher_def)
  have c: "pd_completed sample_busy \<noteq> []" by (simp add: sample_busy_def)
  show ?thesis
    using completed_result_announced [OF sample_dispatcher_made sample_eventfd_contract v
        sample_dispatcher_busy c] c by blast
qed

end
