(* ===== verification/Event_Loop.thy ===== *)
theory Event_Loop
  imports Connection_State Epoll_Handle Processing
begin

text \<open>
  The single-threaded reactor: \<open>include/netpulse/server/event_loop.hpp\<close> and
  \<open>src/server/event_loop.cpp\<close>. The definitions follow the member functions one by one;
  output to \<open>std::cout\<close> and \<open>std::cerr\<close> is left out. The worker threads run concurrently:
  \<open>sched\<close> is what they do before the event loop enters the next critical section it
  shares with them.
\<close>

unbundle bit_operations_syntax

section \<open>State\<close>

definition kMaxEvents :: nat where
  "kMaxEvents = 64"

definition kClientEvents :: u32 where
  "kClientEvents = EPOLLIN OR EPOLLRDHUP"

record ClientState =
  cs_id :: ConnectionId
  cs_connection :: Connection

record EventLoop =
  el_listener :: Socket
  el_epoll :: Epoll
  el_connections :: "fd \<rightharpoonup> ClientState"
  el_next_connection_id :: ConnectionId
  el_error_number :: errno
  el_initialized :: bool
  el_dispatcher :: ProcessingDispatcher

type_synonym 'w sched = "ProcessingDispatcher \<times> 'w \<Rightarrow> ProcessingDispatcher \<times> 'w"

section \<open>Construction\<close>

text \<open>The constructor's body, after the members were initialised.\<close>

definition EventLoop_setup :: "'w os \<Rightarrow> EventLoop \<Rightarrow> 'w \<Rightarrow> EventLoop \<times> 'w" where
  "EventLoop_setup os el w =
     (if \<not> socket_valid (el_listener el) then (el\<lparr>el_error_number := EBADF\<rparr>, w)
      else if \<not> epoll_valid (el_epoll el) then (el\<lparr>el_error_number := sys_errno os w\<rparr>, w)
      else if \<not> pd_valid (el_dispatcher el) then
        (el\<lparr>el_error_number := pd_errorNumber (el_dispatcher el)\<rparr>, w)
      else
        (case setNonBlocking os (sock_fd (el_listener el)) w of
           (nonblocking_result, w1) \<Rightarrow>
             if \<not> nb_success nonblocking_result then
               (el\<lparr>el_error_number := nb_error_number nonblocking_result\<rparr>, w1)
             else
               (case epoll_add os (el_epoll el) (sock_fd (el_listener el)) EPOLLIN w1 of
                  (listener_add_result, w2) \<Rightarrow>
                    if \<not> epo_success listener_add_result then
                      (el\<lparr>el_error_number := epo_error_number listener_add_result\<rparr>, w2)
                    else
                      (case epoll_add os (el_epoll el) (pd_notificationFd (el_dispatcher el)) EPOLLIN w2 of
                         (dispatcher_add_result, w3) \<Rightarrow>
                           if \<not> epo_success dispatcher_add_result then
                             (el\<lparr>el_error_number := epo_error_number dispatcher_add_result\<rparr>, w3)
                           else (el\<lparr>el_initialized := True\<rparr>, w3)))))"

text \<open>
  The members are initialised in the order of their declaration, the dispatcher last; when
  it throws, the epoll instance and the listener are destroyed.
\<close>

definition make_EventLoop ::
  "'w os \<Rightarrow> (nat \<Rightarrow> bool) \<Rightarrow> Socket \<Rightarrow> nat \<Rightarrow> nat \<Rightarrow> 'w \<Rightarrow> (cxx_exception + EventLoop) \<times> 'w" where
  "make_EventLoop os spawn listener worker_count task_queue_capacity w =
     (let listener' = fst (socket_move listener)
      in case make_Epoll os w of
           (epoll, w1) \<Rightarrow>
             (case make_ProcessingDispatcher os spawn worker_count task_queue_capacity w1 of
                (Inl ex, w2) \<Rightarrow> (Inl ex, socket_destroy os listener' (epoll_destroy os epoll w2))
              | (Inr dispatcher, w2) \<Rightarrow>
                  (case EventLoop_setup os
                      \<lparr>el_listener = listener', el_epoll = epoll, el_connections = Map.empty,
                       el_next_connection_id = 1, el_error_number = 0, el_initialized = False,
                       el_dispatcher = dispatcher\<rparr> w2 of
                     (el, w3) \<Rightarrow> (Inr el, w3))))"

definition el_valid :: "EventLoop \<Rightarrow> bool" where
  "el_valid el \<longleftrightarrow> el_initialized el"

definition el_errorNumber :: "EventLoop \<Rightarrow> errno" where
  "el_errorNumber el = el_error_number el"

definition connectionCount :: "EventLoop \<Rightarrow> nat" where
  "connectionCount el = card (dom (el_connections el))"

section \<open>Connections\<close>

text \<open>\<open>updateInterest\<close> for a connection of the loop.\<close>

definition updateInterest :: "'w os \<Rightarrow> EventLoop \<Rightarrow> Connection \<Rightarrow> 'w \<Rightarrow> bool \<times> 'w" where
  "updateInterest os el connection w =
     (let events = (if wantsWrite connection then kClientEvents OR EPOLLOUT else kClientEvents)
      in case epoll_modify os (el_epoll el) (conn_fd connection) events w of
           (modify_result, w') \<Rightarrow> (epo_success modify_result, w'))"

text \<open>Erasing the map entry destroys the connection and closes its socket.\<close>

definition closeConnection :: "'w os \<Rightarrow> fd \<Rightarrow> EventLoop \<Rightarrow> 'w \<Rightarrow> EventLoop \<times> 'w" where
  "closeConnection os client_fd el w =
     (case el_connections el client_fd of
        None \<Rightarrow> (el, w)
      | Some client_state \<Rightarrow>
          (case epoll_remove os (el_epoll el) client_fd w of
             (remove_result, w1) \<Rightarrow>
               (el\<lparr>el_connections := (el_connections el)(client_fd := None)\<rparr>,
                conn_destroy os (cs_connection client_state) w1)))"

text \<open>
  What \<open>acceptReadyClients\<close> does with a descriptor it accepted. \<open>try_emplace\<close> leaves the
  socket with the caller when the key exists, and the caller's socket is then destroyed.
\<close>

definition register_client :: "'w os \<Rightarrow> fd \<Rightarrow> EventLoop \<Rightarrow> 'w \<Rightarrow> EventLoop \<times> 'w" where
  "register_client os client_fd el w =
     (let client_socket = Socket_of_fd client_fd;
          connection_id = el_next_connection_id el;
          el1 = el\<lparr>el_next_connection_id := connection_id + 1\<rparr>
      in if el_connections el1 client_fd \<noteq> None then (el1, socket_destroy os client_socket w)
         else
           (let connection = new_connection (fst (socket_move client_socket));
                el2 = el1\<lparr>el_connections := (el_connections el1)
                  (client_fd \<mapsto> \<lparr>cs_id = connection_id, cs_connection = connection\<rparr>)\<rparr>
            in case epoll_add os (el_epoll el2) client_fd kClientEvents w of
                 (add_result, w1) \<Rightarrow>
                   if \<not> epo_success add_result then
                     (el2\<lparr>el_connections := (el_connections el2)(client_fd := None)\<rparr>,
                      conn_destroy os connection w1)
                   else (el2, w1)))"

definition accept_body ::
  "'w os \<Rightarrow> EventLoop \<times> 'w \<Rightarrow> EventLoop \<times> 'w + bool \<times> EventLoop \<times> 'w" where
  "accept_body os = (\<lambda>(el, w).
     case sys_accept4 os (sock_fd (el_listener el)) SOCK_NONBLOCK_CLOEXEC w of
       (Ok client_fd, w1) \<Rightarrow> Inl (register_client os client_fd el w1)
     | (Fail operation_error, w1) \<Rightarrow>
         if operation_error = EINTR then Inl (el, w1)
         else if operation_error = EAGAIN \<or> operation_error = EWOULDBLOCK then Inr (True, el, w1)
         else Inr (False, el\<lparr>el_error_number := operation_error\<rparr>, w1))"

definition acceptReadyClients :: "'w os \<Rightarrow> EventLoop \<Rightarrow> 'w \<Rightarrow> (bool \<times> EventLoop \<times> 'w) option" where
  "acceptReadyClients os el w = loop (accept_body os) (el, w)"

section \<open>Processing\<close>

definition submitFrameForProcessing ::
  "'w sched \<Rightarrow> fd \<Rightarrow> ConnectionId \<Rightarrow> bytes \<Rightarrow> EventLoop \<Rightarrow> 'w \<Rightarrow> bool \<times> EventLoop \<times> 'w" where
  "submitFrameForProcessing sched client_fd connection_id payload el w =
     (case sched (el_dispatcher el, w) of
        (d, w1) \<Rightarrow>
          (case pd_trySubmit \<lparr>task_client_fd = client_fd, task_connection_id = connection_id,
               task_payload = payload\<rparr> d of
             (status, d') \<Rightarrow>
               (case status of
                  sub_Success \<Rightarrow> (True, el\<lparr>el_dispatcher := d'\<rparr>, w1)
                | sub_QueueFull \<Rightarrow> (False, el\<lparr>el_dispatcher := d'\<rparr>, w1)
                | sub_Stopped \<Rightarrow> (False, el\<lparr>el_dispatcher := d'\<rparr>, w1)
                | sub_InvalidTask \<Rightarrow> (False, el\<lparr>el_dispatcher := d'\<rparr>, w1))))"

text \<open>The loop of \<open>handleClientEvent\<close> over the frames it read, up to the first refusal.\<close>

fun submit_frames_of ::
  "'w sched \<Rightarrow> fd \<Rightarrow> ConnectionId \<Rightarrow> bytes list \<Rightarrow> EventLoop \<Rightarrow> 'w \<Rightarrow> bool \<times> EventLoop \<times> 'w" where
  "submit_frames_of sched client_fd connection_id [] el w = (True, el, w)"
| "submit_frames_of sched client_fd connection_id (frame # frames) el w =
     (case submitFrameForProcessing sched client_fd connection_id frame el w of
        (submitted, el1, w1) \<Rightarrow>
          if \<not> submitted then (False, el1, w1)
          else submit_frames_of sched client_fd connection_id frames el1 w1)"

text \<open>The body of the loop of \<open>handleProcessingResults\<close> over the results.\<close>

definition handle_result ::
  "endian \<Rightarrow> 'w os \<Rightarrow> ProcessingResult \<Rightarrow> EventLoop \<Rightarrow> 'w \<Rightarrow> EventLoop \<times> 'w" where
  "handle_result e os result el w =
     (case el_connections el (res_client_fd result) of
        None \<Rightarrow> (el, w)
      | Some client_state \<Rightarrow>
          if cs_id client_state \<noteq> res_connection_id result then (el, w)
          else
            (case queueFrame e (res_response result) (cs_connection client_state) of
               (queue_status, connection) \<Rightarrow>
                 (let el1 = el\<lparr>el_connections := (el_connections el)
                    (res_client_fd result \<mapsto> client_state\<lparr>cs_connection := connection\<rparr>)\<rparr>
                  in if queue_status \<noteq> fq_queued then closeConnection os (res_client_fd result) el1 w
                     else
                       (case updateInterest os el1 connection w of
                          (updated, w1) \<Rightarrow>
                            if \<not> updated then closeConnection os (res_client_fd result) el1 w1
                            else (el1, w1)))))"

fun handle_results ::
  "endian \<Rightarrow> 'w os \<Rightarrow> ProcessingResult list \<Rightarrow> EventLoop \<Rightarrow> 'w \<Rightarrow> EventLoop \<times> 'w" where
  "handle_results e os [] el w = (el, w)"
| "handle_results e os (result # results) el w =
     (case handle_result e os result el w of (el1, w1) \<Rightarrow> handle_results e os results el1 w1)"

definition handleProcessingResults ::
  "endian \<Rightarrow> 'w os \<Rightarrow> 'w sched \<Rightarrow> EventLoop \<Rightarrow> 'w \<Rightarrow> (bool \<times> EventLoop \<times> 'w) option" where
  "handleProcessingResults e os sched el w =
     (case sched (el_dispatcher el, w) of
        (d, w1) \<Rightarrow>
          (case pd_consumeNotifications os d w1 of
             None \<Rightarrow> None
           | Some (notification, w2) \<Rightarrow>
               if \<not> efr_success notification then
                 if efr_error_number notification = EAGAIN
                    \<or> efr_error_number notification = EWOULDBLOCK then
                   Some (True, el\<lparr>el_dispatcher := d\<rparr>, w2)
                 else
                   Some (False, el\<lparr>el_dispatcher := d,
                     el_error_number := efr_error_number notification\<rparr>, w2)
               else
                 (case sched (d, w2) of
                    (d1, w3) \<Rightarrow>
                      (case pd_takeCompleted d1 of
                         (results, d2) \<Rightarrow>
                           Some (True, handle_results e os results (el\<lparr>el_dispatcher := d2\<rparr>) w3)))))"

section \<open>Client events\<close>

definition put_connection :: "fd \<Rightarrow> ClientState \<Rightarrow> Connection \<Rightarrow> EventLoop \<Rightarrow> EventLoop" where
  "put_connection client_fd client_state connection el =
     el\<lparr>el_connections :=
       (el_connections el)(client_fd \<mapsto> client_state\<lparr>cs_connection := connection\<rparr>)\<rparr>"

text \<open>The end of \<open>handleClientEvent\<close>: write what is pending and update the interest.\<close>

definition handleClientEvent_write ::
  "'w os \<Rightarrow> fd \<Rightarrow> ClientState \<Rightarrow> Connection \<Rightarrow> EventLoop \<Rightarrow> 'w \<Rightarrow> (EventLoop \<times> 'w) option" where
  "handleClientEvent_write os client_fd client_state connection el w =
     (case (if wantsWrite connection then
              map_option (\<lambda>(flush_result, c, w1). (ff_status flush_result = ff_error, c, w1))
                (flushWrites os connection w)
            else Some (False, connection, w)) of
        None \<Rightarrow> None
      | Some (write_error, c, w1) \<Rightarrow>
          (let el1 = put_connection client_fd client_state c el
           in if write_error then Some (closeConnection os client_fd el1 w1)
              else
                (case updateInterest os el1 c w1 of
                   (updated, w2) \<Rightarrow>
                     if \<not> updated then Some (closeConnection os client_fd el1 w2)
                     else Some (el1, w2))))"

definition handleClientEvent ::
  "endian \<Rightarrow> 'w os \<Rightarrow> 'w sched \<Rightarrow> fd \<Rightarrow> u32 \<Rightarrow> EventLoop \<Rightarrow> 'w \<Rightarrow> (EventLoop \<times> 'w) option" where
  "handleClientEvent e os sched client_fd events el w =
     (case el_connections el client_fd of
        None \<Rightarrow> Some (el, w)
      | Some client_state \<Rightarrow>
          if events AND (EPOLLERR OR EPOLLHUP) \<noteq> 0 then Some (closeConnection os client_fd el w)
          else if events AND (EPOLLIN OR EPOLLRDHUP) \<noteq> 0 then
            (case readAvailable e os (cs_connection client_state) w of
               None \<Rightarrow> None
             | Some (read_result, connection, w1) \<Rightarrow>
                 (case submit_frames_of sched client_fd (cs_id client_state) (cr_frames read_result)
                     (put_connection client_fd client_state connection el) w1 of
                    (submitted, el2, w2) \<Rightarrow>
                      if \<not> submitted then Some (closeConnection os client_fd el2 w2)
                      else if cr_status read_result = cr_peer_closed then
                        Some (closeConnection os client_fd el2 w2)
                      else if cr_status read_result = cr_protocol_error then
                        Some (closeConnection os client_fd el2 w2)
                      else if cr_status read_result = cr_io_error then
                        Some (closeConnection os client_fd el2 w2)
                      else handleClientEvent_write os client_fd client_state connection el2 w2))
          else handleClientEvent_write os client_fd client_state (cs_connection client_state) el w)"

section \<open>The main loop\<close>

text \<open>
  The body of \<open>run\<close>'s loop over the events of one \<open>epoll_wait\<close>: the flag tells whether
  \<open>run\<close> goes on; if not it returns 1.
\<close>

definition handle_event ::
  "endian \<Rightarrow> 'w os \<Rightarrow> 'w sched \<Rightarrow> epoll_event \<Rightarrow> EventLoop \<Rightarrow> 'w \<Rightarrow> (bool \<times> EventLoop \<times> 'w) option" where
  "handle_event e os sched event el w =
     (let ready_fd = ev_data_fd event
      in if ready_fd = pd_notificationFd (el_dispatcher el) then
           if ev_events event AND (EPOLLERR OR EPOLLHUP) \<noteq> 0 then
             Some (False, el\<lparr>el_error_number := EIO\<rparr>, w)
           else if ev_events event AND EPOLLIN \<noteq> 0 then handleProcessingResults e os sched el w
           else Some (True, el, w)
         else if ready_fd = sock_fd (el_listener el) then
           (case (if ev_events event AND EPOLLIN \<noteq> 0 then acceptReadyClients os el w
                  else Some (True, el, w)) of
              None \<Rightarrow> None
            | Some (accepted, el1, w1) \<Rightarrow>
                if \<not> accepted then Some (False, el1, w1)
                else if ev_events event AND (EPOLLERR OR EPOLLHUP) \<noteq> 0 then
                  Some (False, el1\<lparr>el_error_number := EIO\<rparr>, w1)
                else Some (True, el1, w1))
         else
           map_option (\<lambda>(el1, w1). (True, el1, w1))
             (handleClientEvent e os sched ready_fd (ev_events event) el w))"

fun handle_events ::
  "endian \<Rightarrow> 'w os \<Rightarrow> 'w sched \<Rightarrow> epoll_event list \<Rightarrow> EventLoop \<Rightarrow> 'w
     \<Rightarrow> (bool \<times> EventLoop \<times> 'w) option" where
  "handle_events e os sched [] el w = Some (True, el, w)"
| "handle_events e os sched (event # events) el w =
     (case handle_event e os sched event el w of
        None \<Rightarrow> None
      | Some (go_on, el1, w1) \<Rightarrow>
          if go_on then handle_events e os sched events el1 w1 else Some (False, el1, w1))"

text \<open>One iteration of \<open>run\<close>; \<open>Inr None\<close> is a handler that does not return.\<close>

definition run_body ::
  "endian \<Rightarrow> 'w os \<Rightarrow> 'w sched \<Rightarrow> EventLoop \<times> epoll_event list \<times> 'w
     \<Rightarrow> EventLoop \<times> epoll_event list \<times> 'w + (int \<times> EventLoop \<times> 'w) option" where
  "run_body e os sched = (\<lambda>(el, events, w).
     case epoll_wait os (el_epoll el) events (-1) w of
       None \<Rightarrow> Inr None
     | Some (wait_result, events', w1) \<Rightarrow>
         if \<not> EpollWaitResult_completed wait_result then
           Inr (Some (1, el\<lparr>el_error_number := epw_error_number wait_result\<rparr>, w1))
         else
           (case handle_events e os sched (take (nat (epw_event_count wait_result)) events') el w1 of
              None \<Rightarrow> Inr None
            | Some (go_on, el1, w2) \<Rightarrow>
                if go_on then Inl (el1, events', w2) else Inr (Some (1, el1, w2))))"

definition run ::
  "endian \<Rightarrow> 'w os \<Rightarrow> 'w sched \<Rightarrow> EventLoop \<Rightarrow> 'w \<Rightarrow> (int \<times> EventLoop \<times> 'w) option" where
  "run e os sched el w =
     (if \<not> el_valid el then Some (1, el, w)
      else Option.bind
        (loop (run_body e os sched) (el, replicate kMaxEvents \<lparr>ev_events = 0, ev_data_fd = 0\<rparr>, w))
        (\<lambda>r. r))"

section \<open>Destruction\<close>

text \<open>
  The implicit destructor destroys the members in reverse order of their declaration: the
  dispatcher, whose pool stops and joins the workers before the eventfd is closed, then
  the connections, the epoll instance and the listener. \<open>shutdown\<close> is what the workers do
  until they are joined, \<open>order\<close> the order in which the hash table holds its entries.
\<close>

fun destroy_connections :: "'w os \<Rightarrow> ClientState list \<Rightarrow> 'w \<Rightarrow> 'w" where
  "destroy_connections os [] w = w"
| "destroy_connections os (cs # css) w = destroy_connections os css (conn_destroy os (cs_connection cs) w)"

definition el_destroy ::
  "'w os \<Rightarrow> 'w sched \<Rightarrow> ((fd \<rightharpoonup> ClientState) \<Rightarrow> fd list) \<Rightarrow> EventLoop \<Rightarrow> 'w \<Rightarrow> 'w" where
  "el_destroy os shutdown order el w =
     (case shutdown (pd_stop (el_dispatcher el), w) of
        (d, w1) \<Rightarrow>
          (let w2 = efd_destroy os (pd_notifier d) w1;
               w3 = destroy_connections os (List.map_filter (el_connections el) (order (el_connections el))) w2;
               w4 = epoll_destroy os (el_epoll el) w3
           in socket_destroy os (el_listener el) w4))"

end
