(* ===== verification/Server_Kernel.thy ===== *)
theory Server_Kernel
  imports Connection_State Epoll_Handle Processing
begin

text \<open>
  What the event loop relies on from the operating system, stated over a view of the
  world: the interest list of its epoll instance, the open descriptors of the process, the
  number of connections accepted so far, the bytes received and sent on every open socket
  since it was opened, and the counter of the eventfd. Each clause is documented behaviour
  of the system call it names; together they say what a call changes and what it leaves
  alone. The lemmas carry the clauses over to the operations of the components.
\<close>

section \<open>The view and its contract\<close>

record 'w view =
  v_interest :: "'w \<Rightarrow> fd \<rightharpoonup> u32"
  v_open :: "'w \<Rightarrow> fd set"
  v_accepted :: "'w \<Rightarrow> nat"
  v_in :: "fd \<Rightarrow> 'w \<Rightarrow> bytes"
  v_out :: "fd \<Rightarrow> 'w \<Rightarrow> bytes"
  v_ctr :: "'w \<Rightarrow> nat"

definition same_tables :: "'w view \<Rightarrow> 'w \<Rightarrow> 'w \<Rightarrow> bool" where
  "same_tables K w w' \<longleftrightarrow> v_interest K w' = v_interest K w \<and> v_open K w' = v_open K w
     \<and> v_accepted K w' = v_accepted K w"

definition same_streams :: "'w view \<Rightarrow> fd set \<Rightarrow> 'w \<Rightarrow> 'w \<Rightarrow> bool" where
  "same_streams K but w w' \<longleftrightarrow>
     (\<forall>g. g \<notin> but \<longrightarrow> v_in K g w' = v_in K g w \<and> v_out K g w' = v_out K g w)"

lemma same_refl [simp]: "same_tables K w w" "same_streams K X w w"
  by (simp_all add: same_tables_def same_streams_def)

lemma same_trans:
  "same_tables K w1 w2 \<Longrightarrow> same_tables K w2 w3 \<Longrightarrow> same_tables K w1 w3"
  "same_streams K X w1 w2 \<Longrightarrow> same_streams K X w2 w3 \<Longrightarrow> same_streams K X w1 w3"
  by (simp_all add: same_tables_def same_streams_def)

text \<open>
  Calls on existing descriptors. Sending and receiving concern one direction of one socket,
  the eventfd its counter, \<open>epoll_ctl\<close> the interest list; closing a descriptor says nothing
  about the others.
\<close>

definition send_frame :: "'w os \<Rightarrow> 'w view \<Rightarrow> bool" where
  "send_frame os K \<longleftrightarrow> (\<forall>fd data flags w w' r. sys_send os fd data flags w = (r, w') \<longrightarrow>
     same_tables K w w' \<and> v_ctr K w' = v_ctr K w \<and> (\<forall>g. v_in K g w' = v_in K g w))"

definition recv_frame :: "'w os \<Rightarrow> 'w view \<Rightarrow> bool" where
  "recv_frame os K \<longleftrightarrow> (\<forall>fd n flags w w' r. sys_recv os fd n flags w = (r, w') \<longrightarrow>
     same_tables K w w' \<and> v_ctr K w' = v_ctr K w \<and> (\<forall>g. v_out K g w' = v_out K g w)
     \<and> same_streams K {fd} w w')"

definition eventfd_frame :: "'w os \<Rightarrow> 'w view \<Rightarrow> fd \<Rightarrow> bool" where
  "eventfd_frame os K nfd \<longleftrightarrow>
     (\<forall>v w w' r. sys_write_u64 os nfd v w = (r, w') \<longrightarrow> same_tables K w w' \<and> same_streams K {} w w')
   \<and> (\<forall>w w' r. sys_read_u64 os nfd w = (r, w') \<longrightarrow> same_tables K w w' \<and> same_streams K {} w w')"

definition epoll_frame :: "'w os \<Rightarrow> 'w view \<Rightarrow> fd \<Rightarrow> bool" where
  "epoll_frame os K epfd \<longleftrightarrow>
     (\<forall>n t w w' r. sys_epoll_wait os epfd n t w = (r, w') \<longrightarrow>
        same_tables K w w' \<and> same_streams K {} w w' \<and> v_ctr K w' = v_ctr K w)
   \<and> (\<forall>op fd ev w w' r. sys_epoll_ctl os epfd op fd ev w = (r, w') \<longrightarrow>
        v_open K w' = v_open K w \<and> v_accepted K w' = v_accepted K w
        \<and> same_streams K {} w w' \<and> v_ctr K w' = v_ctr K w)"

definition close_frame :: "'w os \<Rightarrow> 'w view \<Rightarrow> fd \<Rightarrow> bool" where
  "close_frame os K nfd \<longleftrightarrow>
     (\<forall>fd w. v_open K (sys_close os fd w) = v_open K w - {fd}
        \<and> v_accepted K (sys_close os fd w) = v_accepted K w
        \<and> same_streams K {fd} w (sys_close os fd w)
        \<and> (fd \<noteq> nfd \<longrightarrow> v_ctr K (sys_close os fd w) = v_ctr K w))"

text \<open>
  \<open>accept4\<close> returns a descriptor that was not open, for a socket on which this process has
  neither received nor sent anything. The number of connections accepted stays below
  \<open>2^64 - 1\<close>, so that the 64-bit connection ids do not wrap around.
\<close>

definition accept_contract :: "'w os \<Rightarrow> 'w view \<Rightarrow> bool" where
  "accept_contract os K \<longleftrightarrow>
     (\<forall>fd flags w c w'. sys_accept4 os fd flags w = (Ok c, w') \<longrightarrow>
        0 \<le> c \<and> c \<notin> v_open K w \<and> v_open K w' = insert c (v_open K w)
        \<and> v_accepted K w' = v_accepted K w + 1 \<and> v_accepted K w' < 2 ^ 64 - 1
        \<and> v_interest K w' = v_interest K w \<and> v_ctr K w' = v_ctr K w
        \<and> v_in K c w' = [] \<and> v_out K c w' = [] \<and> same_streams K {c} w w')
   \<and> (\<forall>fd flags w e w'. sys_accept4 os fd flags w = (Fail e, w') \<longrightarrow>
        same_tables K w w' \<and> same_streams K {} w w' \<and> v_ctr K w' = v_ctr K w)"

definition server_kernel :: "'w os \<Rightarrow> 'w view \<Rightarrow> fd \<Rightarrow> fd \<Rightarrow> bool" where
  "server_kernel os K epfd nfd \<longleftrightarrow>
     send_contract os (v_out K) \<and> recv_contract os (v_in K) \<and> eventfd_contract os nfd (v_ctr K)
     \<and> epoll_contract os epfd (v_interest K) \<and> accept_contract os K
     \<and> send_frame os K \<and> recv_frame os K \<and> eventfd_frame os K nfd \<and> epoll_frame os K epfd
     \<and> close_frame os K nfd"

text \<open>The calls that set the server up.\<close>

definition startup_contract :: "'w os \<Rightarrow> 'w view \<Rightarrow> bool" where
  "startup_contract os K \<longleftrightarrow>
     (\<forall>flags w fd w'. sys_epoll_create1 os flags w = (Ok fd, w') \<longrightarrow>
        0 \<le> fd \<and> fd \<notin> v_open K w \<and> v_open K w' = insert fd (v_open K w)
        \<and> v_accepted K w' = v_accepted K w \<and> v_interest K w' = Map.empty)
   \<and> (\<forall>init flags w fd w'. sys_eventfd os init flags w = (Ok fd, w') \<longrightarrow>
        0 \<le> fd \<and> fd \<notin> v_open K w \<and> v_open K w' = insert fd (v_open K w)
        \<and> v_accepted K w' = v_accepted K w \<and> v_interest K w' = v_interest K w)
   \<and> (\<forall>fd w r w'. sys_fcntl_getfl os fd w = (r, w') \<longrightarrow> same_tables K w w')
   \<and> (\<forall>fd flags w r w'. sys_fcntl_setfl os fd flags w = (r, w') \<longrightarrow> same_tables K w w')"

lemma server_kernelD:
  assumes "server_kernel os K epfd nfd"
  shows "send_contract os (v_out K)" "recv_contract os (v_in K)" "eventfd_contract os nfd (v_ctr K)"
    "epoll_contract os epfd (v_interest K)" "accept_contract os K"
    "send_frame os K" "recv_frame os K" "eventfd_frame os K nfd" "epoll_frame os K epfd"
    "close_frame os K nfd"
  using assms by (simp_all add: server_kernel_def)

lemma send_frameD: "send_frame os K \<Longrightarrow> sys_send os fd data flags w = (r, w') \<Longrightarrow>
    same_tables K w w' \<and> v_ctr K w' = v_ctr K w \<and> (\<forall>g. v_in K g w' = v_in K g w)"
  unfolding send_frame_def by blast

lemma recv_frameD: "recv_frame os K \<Longrightarrow> sys_recv os fd n flags w = (r, w') \<Longrightarrow>
    same_tables K w w' \<and> v_ctr K w' = v_ctr K w \<and> (\<forall>g. v_out K g w' = v_out K g w)
    \<and> same_streams K {fd} w w'"
  unfolding recv_frame_def by blast

lemma eventfd_frameD:
  "eventfd_frame os K nfd \<Longrightarrow> sys_write_u64 os nfd v w = (r, w') \<Longrightarrow>
    same_tables K w w' \<and> same_streams K {} w w'"
  "eventfd_frame os K nfd \<Longrightarrow> sys_read_u64 os nfd w = (q, w') \<Longrightarrow>
    same_tables K w w' \<and> same_streams K {} w w'"
  unfolding eventfd_frame_def by blast+

lemma epoll_frameD:
  "epoll_frame os K epfd \<Longrightarrow> sys_epoll_wait os epfd n t w = (r, w') \<Longrightarrow>
    same_tables K w w' \<and> same_streams K {} w w' \<and> v_ctr K w' = v_ctr K w"
  "epoll_frame os K epfd \<Longrightarrow> sys_epoll_ctl os epfd op fd ev w = (q, w') \<Longrightarrow>
    v_open K w' = v_open K w \<and> v_accepted K w' = v_accepted K w
    \<and> same_streams K {} w w' \<and> v_ctr K w' = v_ctr K w"
  unfolding epoll_frame_def by blast+

lemma close_frameD:
  assumes "close_frame os K nfd"
  shows "v_open K (sys_close os fd w) = v_open K w - {fd}"
    and "v_accepted K (sys_close os fd w) = v_accepted K w"
    and "same_streams K {fd} w (sys_close os fd w)"
    and "fd \<noteq> nfd \<Longrightarrow> v_ctr K (sys_close os fd w) = v_ctr K w"
  using assms unfolding close_frame_def by blast+

lemma accept_contractD:
  "accept_contract os K \<Longrightarrow> sys_accept4 os fd flags w = (Ok c, w') \<Longrightarrow>
     0 \<le> c \<and> c \<notin> v_open K w \<and> v_open K w' = insert c (v_open K w)
     \<and> v_accepted K w' = v_accepted K w + 1 \<and> v_accepted K w' < 2 ^ 64 - 1
     \<and> v_interest K w' = v_interest K w \<and> v_ctr K w' = v_ctr K w
     \<and> v_in K c w' = [] \<and> v_out K c w' = [] \<and> same_streams K {c} w w'"
  "accept_contract os K \<Longrightarrow> sys_accept4 os fd flags w = (Fail e, w') \<Longrightarrow>
     same_tables K w w' \<and> same_streams K {} w w' \<and> v_ctr K w' = v_ctr K w"
  unfolding accept_contract_def by blast+

lemmas frame_facts = send_frameD recv_frameD eventfd_frameD epoll_frameD close_frameD
declare frame_facts [os_contracts]

section \<open>What the operations leave alone\<close>

text \<open>An operation made of calls that keep an observation keeps the observation.\<close>

lemma readAvailable_frame:
  assumes "\<And>n flags v. f (snd (sys_recv os (conn_fd c) n flags v)) = f v"
    and "readAvailable e os c w = Some (r, c', w')"
  shows "f w' = f w"
proof -
  from assms(2) obtain d' where
    "loop (readAvailable_body e os (conn_fd c)) ([], conn_decoder c, w) = Some (r, d', w')"
    by (auto simp: readAvailable_def)
  moreover have "f v' = f v" if "sys_recv os (conn_fd c) n flags v = (q, v')" for n flags v q v'
    using assms(1) [of n flags v] that by simp
  ultimately have "(\<lambda>(r, d, v). f v = f w) (r, d', w')"
    by (rule_tac loop_rule [where I = "\<lambda>(fs, d, v). f v = f w"])
      (auto simp: readAvailable_body_continue dest!: readAvailable_body_leave)
  then show ?thesis by simp
qed

lemma flushWrites_frame:
  assumes "\<And>data flags v. f (snd (sys_send os (conn_fd c) data flags v)) = f v"
    and "flushWrites os c w = Some (r, c', w')"
  shows "f w' = f w"
proof -
  from assms(2) obtain b' where
    "loop (flush_body os (conn_fd c)) (conn_write_buffer c, 0, w) = Some (r, b', w')"
    by (auto simp: flushWrites_def flush_def)
  moreover have "f v' = f v" if "sys_send os (conn_fd c) data flags v = (q, v')" for data flags v q v'
    using assms(1) [of data flags v] that by simp
  ultimately have "(\<lambda>(r, d, v). f v = f w) (r, b', w')"
    by (rule_tac loop_rule [where I = "\<lambda>(b, k, v). f v = f w"])
      (auto simp: flush_body_def split: prod.splits sys_ret.splits if_splits)
  then show ?thesis by simp
qed

lemma notify_frame:
  assumes "\<And>x v. f (snd (sys_write_u64 os (efd_fd h) x v)) = f v" and "notify os h x w = Some (r, w')"
  shows "f w' = f w"
proof -
  have step: "f v' = f v" if "sys_write_u64 os (efd_fd h) x v = (q, v')" for x v q v'
    using assms(1) [of x v] that by simp
  have "(\<lambda>(r, v). f v = f w) (r, w')" if "loop (notify_body os (efd_fd h) x) w = Some (r, w')"
    using that by (rule loop_rule [where I = "\<lambda>v. f v = f w"])
      (auto simp: notify_body_def dest: step split: prod.splits sys_ret.splits if_splits)
  then show ?thesis using assms(2) by (auto simp: notify_def split: if_splits)
qed

lemma consume_frame:
  assumes "\<And>v. f (snd (sys_read_u64 os (efd_fd h) v)) = f v" and "consume os h w = Some (r, w')"
  shows "f w' = f w"
proof -
  have step: "f v' = f v" if "sys_read_u64 os (efd_fd h) v = (q, v')" for v q v'
    using assms(1) [of v] that by simp
  have "(\<lambda>(r, v). f v = f w) (r, w')" if "loop (consume_body os (efd_fd h)) w = Some (r, w')"
    using that by (rule loop_rule [where I = "\<lambda>v. f v = f w"])
      (auto simp: consume_body_def dest: step split: prod.splits sys_ret.splits if_splits)
  then show ?thesis using assms(2) by (auto simp: consume_def split: if_splits)
qed

lemma epoll_wait_frame:
  assumes "\<And>n t v. f (snd (sys_epoll_wait os (ep_fd ep) n t v)) = f v"
    and "epoll_wait os ep events timeout w = Some (r, events', w')"
  shows "f w' = f w"
proof -
  have step: "f v' = f v" if "sys_epoll_wait os (ep_fd ep) n t v = (q, v')" for n t v q v'
    using assms(1) [of n t v] that by simp
  have "(\<lambda>(r, es, v). f v = f w) (r, events', w')"
    if "loop (wait_body os (ep_fd ep) events timeout) w = Some (r, events', w')"
    using that by (rule loop_rule [where I = "\<lambda>v. f v = f w"])
      (auto simp: wait_body_def dest: step split: prod.splits sys_ret.splits if_splits)
  then show ?thesis using assms(2) by (auto simp: epoll_wait_def split: if_splits)
qed

lemma background_frame:
  assumes "\<And>x v. f (snd (sys_write_u64 os (efd_fd (pd_notifier d)) x v)) = f v"
    and "background_step os (d, w) (d', w')"
  shows "f w' = f w"
  using assms(2)
proof cases
  case (worker ev pool completed err)
  have pub: "f w' = f w" if "publish_notify os (pd_notifier d) (c, er, w) = Some (c', er', w')" for c er c' er'
    using that notify_frame [of f os "pd_notifier d" 1 w] assms(1)
    by (auto simp: publish_notify_def split: option.splits if_splits)
  from worker(2,3) show ?thesis
    by cases (auto simp: workerLoop_step_def dispatch_exec_def publish_push_def dest: pub
        split: Worker.splits PopResult.splits prod.splits option.splits stage.splits dispatch_task.splits)
qed

section \<open>The operations on the view\<close>

lemma readAvailable_view:
  assumes "recv_frame os K" and "readAvailable e os c w = Some (r, c', w')"
  shows "same_tables K w w'" and "v_ctr K w' = v_ctr K w" and "v_out K g w' = v_out K g w"
    and "same_streams K {conn_fd c} w w'"
proof -
  let ?f = "\<lambda>v. (v_interest K v, v_open K v, v_accepted K v, v_ctr K v, \<lambda>g. v_out K g v,
    \<lambda>g. if g = conn_fd c then [] else v_in K g v)"
  have "?f w' = ?f w"
  proof (rule readAvailable_frame [OF _ assms(2)])
    fix n flags v
    show "?f (snd (sys_recv os (conn_fd c) n flags v)) = ?f v"
      using recv_frameD [OF assms(1), of "conn_fd c" n flags v]
      by (auto simp: same_tables_def same_streams_def prod_eq_iff)
  qed
  then show "same_tables K w w'" "v_ctr K w' = v_ctr K w" "v_out K g w' = v_out K g w"
    "same_streams K {conn_fd c} w w'"
    by (auto simp: same_tables_def same_streams_def fun_eq_iff split: if_splits)
qed

lemma flushWrites_view:
  assumes "send_frame os K" and "flushWrites os c w = Some (r, c', w')"
  shows "same_tables K w w'" and "v_ctr K w' = v_ctr K w" and "v_in K g w' = v_in K g w"
proof -
  let ?f = "\<lambda>v. (v_interest K v, v_open K v, v_accepted K v, v_ctr K v, \<lambda>g. v_in K g v)"
  have "?f w' = ?f w"
  proof (rule flushWrites_frame [OF _ assms(2)])
    fix data flags v
    show "?f (snd (sys_send os (conn_fd c) data flags v)) = ?f v"
      using send_frameD [OF assms(1), of "conn_fd c" data flags v]
      by (auto simp: same_tables_def prod_eq_iff)
  qed
  then show "same_tables K w w'" "v_ctr K w' = v_ctr K w" "v_in K g w' = v_in K g w"
    by (auto simp: same_tables_def fun_eq_iff)
qed

abbreviation tables_and_streams ::
  "'w view \<Rightarrow> 'w \<Rightarrow> (fd \<rightharpoonup> u32) \<times> fd set \<times> nat \<times> (fd \<Rightarrow> bytes) \<times> (fd \<Rightarrow> bytes)" where
  "tables_and_streams K v \<equiv>
     (v_interest K v, v_open K v, v_accepted K v, \<lambda>g. v_in K g v, \<lambda>g. v_out K g v)"

lemma tables_and_streams_eq:
  "tables_and_streams K w' = tables_and_streams K w \<longleftrightarrow> same_tables K w w' \<and> same_streams K {} w w'"
  by (auto simp: same_tables_def same_streams_def fun_eq_iff)

lemma consume_view:
  assumes "eventfd_frame os K (efd_fd h)" and "consume os h w = Some (r, w')"
  shows "same_tables K w w' \<and> same_streams K {} w w'"
proof -
  have "tables_and_streams K (snd (sys_read_u64 os (efd_fd h) v)) = tables_and_streams K v" for v
    unfolding tables_and_streams_eq using eventfd_frameD(2) [OF assms(1)] by (metis prod.collapse)
  from consume_frame [of "tables_and_streams K", OF this assms(2)]
  show ?thesis by (simp only: tables_and_streams_eq)
qed

lemma background_view:
  assumes "eventfd_frame os K (efd_fd (pd_notifier d))" and "background_step os (d, w) (d', w')"
  shows "same_tables K w w' \<and> same_streams K {} w w'"
proof -
  have "tables_and_streams K (snd (sys_write_u64 os (efd_fd (pd_notifier d)) x v)) = tables_and_streams K v"
    for x v
    unfolding tables_and_streams_eq using eventfd_frameD(1) [OF assms(1)] by (metis prod.collapse)
  from background_frame [of "tables_and_streams K", OF this assms(2)]
  show ?thesis by (simp only: tables_and_streams_eq)
qed

lemma epoll_wait_view:
  assumes "epoll_frame os K (ep_fd ep)" and "epoll_wait os ep events timeout w = Some (r, events', w')"
  shows "same_tables K w w' \<and> same_streams K {} w w' \<and> v_ctr K w' = v_ctr K w"
proof -
  let ?f = "\<lambda>v. (tables_and_streams K v, v_ctr K v)"
  have "?f (snd (sys_epoll_wait os (ep_fd ep) n t v)) = ?f v" for n t v
    using epoll_frameD(1) [OF assms(1), of n t v]
    by (cases "sys_epoll_wait os (ep_fd ep) n t v") (simp add: same_tables_def same_streams_def)
  from epoll_wait_frame [of ?f, OF this assms(2)]
  show ?thesis by (simp add: same_tables_def same_streams_def fun_eq_iff)
qed

lemma controlEpoll_view:
  assumes "epoll_frame os K epfd" and "controlEpoll os epfd op fd events w = (r, w')"
  shows "v_open K w' = v_open K w \<and> v_accepted K w' = v_accepted K w
    \<and> same_streams K {} w w' \<and> v_ctr K w' = v_ctr K w"
proof -
  from assms(2) obtain ev q where "sys_epoll_ctl os epfd op fd ev w = (q, w')"
    by (auto simp: controlEpoll_def Let_def split: prod.splits sys_ret.splits)
  from epoll_frameD(2) [OF assms(1) this] show ?thesis .
qed

lemma epoll_control_view:
  assumes "epoll_frame os K (ep_fd ep)"
  shows "epoll_add os ep fd events w = (r, w') \<Longrightarrow> v_open K w' = v_open K w
      \<and> v_accepted K w' = v_accepted K w \<and> same_streams K {} w w' \<and> v_ctr K w' = v_ctr K w"
    and "epoll_modify os ep fd events w = (r, w') \<Longrightarrow> v_open K w' = v_open K w
      \<and> v_accepted K w' = v_accepted K w \<and> same_streams K {} w w' \<and> v_ctr K w' = v_ctr K w"
    and "epoll_remove os ep fd w = (r, w') \<Longrightarrow> v_open K w' = v_open K w
      \<and> v_accepted K w' = v_accepted K w \<and> same_streams K {} w w' \<and> v_ctr K w' = v_ctr K w"
  unfolding epoll_add_def epoll_modify_def epoll_remove_def
  using controlEpoll_view [OF assms] by (metis prod.inject same_refl(2))+

text \<open>Any number of steps of the worker threads.\<close>

definition workers_run :: "'w os \<Rightarrow> (ProcessingDispatcher \<times> 'w \<Rightarrow> ProcessingDispatcher \<times> 'w) \<Rightarrow> bool" where
  "workers_run os sched \<longleftrightarrow> (\<forall>s. (background_step os)\<^sup>*\<^sup>* s (sched s))"

lemma backgrounds_view:
  assumes "(background_step os)\<^sup>*\<^sup>* (d, w) (d', w')" and "eventfd_frame os K (efd_fd (pd_notifier d))"
  shows "same_tables K w w' \<and> same_streams K {} w w' \<and> pd_notifier d' = pd_notifier d
    \<and> image_mset processFrame (open_frames (pd_pool d')) + mset (pd_completed d')
      = image_mset processFrame (open_frames (pd_pool d)) + mset (pd_completed d)"
  using assms
proof (induction rule: rtranclp_induct2)
  case refl
  then show ?case by simp
next
  case (step d1 w1 d' w')
  then have 1: "same_tables K w w1 \<and> same_streams K {} w w1 \<and> pd_notifier d1 = pd_notifier d
    \<and> image_mset processFrame (open_frames (pd_pool d1)) + mset (pd_completed d1)
      = image_mset processFrame (open_frames (pd_pool d)) + mset (pd_completed d)" by simp
  note bg = step.hyps(2)
  have "same_tables K w1 w' \<and> same_streams K {} w1 w'"
    by (rule background_view [OF _ bg]) (use 1 step.prems in simp)
  with 1 background_frames [OF bg] background_notifier [OF bg] show ?case by (auto intro: same_trans)
qed

lemma backgrounds_announced:
  assumes "(background_step os)\<^sup>*\<^sup>* (d, w) (d', w')"
    and "eventfd_contract os (efd_fd (pd_notifier d)) ctr" and "efd_valid (pd_notifier d)"
    and "result_announced ctr d w pc"
  shows "result_announced ctr d' w' pc \<and> pd_notifier d' = pd_notifier d"
  using assms
proof (induction rule: rtranclp_induct2)
  case refl
  then show ?case by simp
next
  case (step d1 w1 d' w')
  then have 1: "result_announced ctr d1 w1 pc \<and> pd_notifier d1 = pd_notifier d" by simp
  note bg = step.hyps(2)
  from 1 step.prems show ?case
    using background_announced [OF bg, of ctr pc] background_notifier [OF bg] by simp
qed

end
