(* ===== verification/Event_Loop_Invariant.thy ===== *)
theory Event_Loop_Invariant
  imports Event_Loop Server_Kernel
begin

text \<open>
  The invariant of the event loop and its preservation by every handler. It relates the
  connection table to the kernel's view: which descriptors are open, what epoll watches,
  and for every connection the requests that were received, the responses that were queued
  or sent, and the frames that are still with the dispatcher.
\<close>

section \<open>The invariant\<close>

definition ack_payload :: bytes where
  "ack_payload = map of_char kAckResponse"

lemma fits_ack [simp]: "fits_frame ack_payload"
  by (simp add: fits_frame_def ack_payload_def kAckResponse_def)

lemma processFrame_simps [simp]:
  "res_client_fd (processFrame t) = task_client_fd t"
  "res_connection_id (processFrame t) = task_connection_id t"
  "res_response (processFrame t) = ack_payload"
  by (simp_all add: processFrame_def ack_payload_def)

text \<open>The results that are completed or still to come, and those addressed to a connection.\<close>

definition outstanding :: "ProcessingDispatcher \<Rightarrow> ProcessingResult multiset" where
  "outstanding d = image_mset processFrame (open_frames (pd_pool d)) + mset (pd_completed d)"

definition addressed :: "fd \<Rightarrow> ConnectionId \<Rightarrow> ProcessingResult multiset \<Rightarrow> nat" where
  "addressed fd cid M = size (filter_mset (\<lambda>r. res_client_fd r = fd \<and> res_connection_id r = cid) M)"

lemma addressed_simps [simp]:
  "addressed fd cid {#} = 0"
  "addressed fd cid (add_mset r M) =
     (if res_client_fd r = fd \<and> res_connection_id r = cid then 1 else 0) + addressed fd cid M"
  by (simp_all add: addressed_def)

text \<open>
  A connection is served when the frames of the stream received so far are as many as the
  responses in the stream sent so far and still to be sent, plus the frames of this
  connection that are with the dispatcher.
\<close>

definition served :: "'w view \<Rightarrow> 'w \<Rightarrow> fd \<Rightarrow> Connection \<Rightarrow> nat \<Rightarrow> bool" where
  "served K w fd c pending \<longleftrightarrow>
     (\<exists>fs n. parse_frames (v_in K fd w) = (fs, Incomplete, conn_in c)
        \<and> v_out K fd w @ conn_out c = concat (replicate n (encode_frame ack_payload))
        \<and> length fs = n + pending)"

definition client_ok :: "'w view \<Rightarrow> 'w \<Rightarrow> ProcessingResult multiset \<Rightarrow> fd \<Rightarrow> ClientState \<Rightarrow> bool" where
  "client_ok K w M fd cs \<longleftrightarrow> conn_wf (cs_connection cs)
     \<and> served K w fd (cs_connection cs) (addressed fd (cs_id cs) M)"

definition interest_for :: "Connection \<Rightarrow> u32" where
  "interest_for c = (if wantsWrite c then kClientEvents OR EPOLLOUT else kClientEvents)"

abbreviation listener_fd :: "EventLoop \<Rightarrow> fd" where
  "listener_fd el \<equiv> sock_fd (el_listener el)"

abbreviation notifier_fd :: "EventLoop \<Rightarrow> fd" where
  "notifier_fd el \<equiv> pd_notificationFd (el_dispatcher el)"

text \<open>
  The descriptors: those of \<open>B\<close>, among them the listener and the eventfd, and one per
  connection. What epoll watches.
\<close>

definition descriptors_ok :: "'w view \<Rightarrow> fd set \<Rightarrow> EventLoop \<Rightarrow> 'w \<Rightarrow> bool" where
  "descriptors_ok K B el w \<longleftrightarrow>
     listener_fd el \<in> B \<and> notifier_fd el \<in> B \<and> listener_fd el \<noteq> notifier_fd el \<and> 0 \<le> notifier_fd el
     \<and> B \<inter> dom (el_connections el) = {} \<and> v_open K w = B \<union> dom (el_connections el)
     \<and> finite (dom (el_connections el))
     \<and> (\<forall>fd cs. el_connections el fd = Some cs \<longrightarrow> 0 \<le> fd \<and> conn_fd (cs_connection cs) = fd)"

definition watched_ok :: "'w view \<Rightarrow> fd set \<Rightarrow> EventLoop \<Rightarrow> 'w \<Rightarrow> bool" where
  "watched_ok K X el w \<longleftrightarrow>
     v_interest K w (listener_fd el) = Some EPOLLIN \<and> v_interest K w (notifier_fd el) = Some EPOLLIN
     \<and> dom (v_interest K w) \<subseteq> {listener_fd el, notifier_fd el} \<union> dom (el_connections el)
     \<and> (\<forall>fd cs. el_connections el fd = Some cs \<longrightarrow> fd \<notin> X \<longrightarrow>
          v_interest K w fd = Some (interest_for (cs_connection cs)))"

text \<open>Connection ids are issued in order and never twice.\<close>

definition id_table :: "EventLoop \<Rightarrow> fd \<rightharpoonup> ConnectionId" where
  "id_table el fd = map_option cs_id (el_connections el fd)"

definition ids_ok :: "nat \<Rightarrow> ProcessingResult multiset \<Rightarrow> ConnectionId \<Rightarrow> (fd \<rightharpoonup> ConnectionId) \<Rightarrow> bool" where
  "ids_ok n M next_id ids \<longleftrightarrow> n < 2 ^ 64 - 1 \<and> next_id = of_nat (n + 1)
     \<and> (\<forall>fd i. ids fd = Some i \<longrightarrow> 0 < unat i \<and> unat i \<le> n)
     \<and> (\<forall>f g i. ids f = Some i \<longrightarrow> ids g = Some i \<longrightarrow> f = g)
     \<and> (\<forall>r \<in># M. unat (res_connection_id r) \<le> n \<and> res_response r = ack_payload
          \<and> (\<forall>g. ids g = Some (res_connection_id r) \<longrightarrow> g = res_client_fd r))"

text \<open>
  The invariant while the connections in \<open>X\<close> are being worked on; \<open>M\<close> are the results
  that are still to be handled.
\<close>

definition loop_inv ::
  "'w view \<Rightarrow> fd set \<Rightarrow> fd set \<Rightarrow> ProcessingResult multiset \<Rightarrow> EventLoop \<Rightarrow> 'w \<Rightarrow> bool" where
  "loop_inv K B X M el w \<longleftrightarrow> descriptors_ok K B el w \<and> watched_ok K X el w
     \<and> ids_ok (v_accepted K w) M (el_next_connection_id el) (id_table el)
     \<and> (\<forall>fd cs. el_connections el fd = Some cs \<longrightarrow> fd \<notin> X \<longrightarrow> client_ok K w M fd cs)"

lemma loop_invD:
  assumes "loop_inv K B X M el w"
  shows "descriptors_ok K B el w" "watched_ok K X el w" "ids_ok (v_accepted K w) M (el_next_connection_id el) (id_table el)"
    and "el_connections el fd = Some cs \<Longrightarrow> fd \<notin> X \<Longrightarrow> client_ok K w M fd cs"
  using assms by (simp_all add: loop_inv_def)

lemmas loop_inv_defs = loop_inv_def descriptors_ok_def watched_ok_def id_table_def [abs_def]

section \<open>Elementary changes\<close>

lemma client_ok_streams:
  "client_ok K w M fd cs \<Longrightarrow> same_streams K X w w' \<Longrightarrow> fd \<notin> X \<Longrightarrow> client_ok K w' M fd cs"
  by (simp add: client_ok_def served_def same_streams_def)

lemma loop_inv_weaken: "loop_inv K B X M el w \<Longrightarrow> X \<subseteq> Y \<Longrightarrow> loop_inv K B Y M el w"
  unfolding loop_inv_def watched_ok_def by (meson subsetD)

lemma loop_inv_quiet:
  assumes "loop_inv K B X M el w" and "same_tables K w w'" and "same_streams K X w w'"
  shows "loop_inv K B X M el w'"
  using assms client_ok_streams [OF _ assms(3)]
  by (simp add: loop_inv_def descriptors_ok_def watched_ok_def same_tables_def)

lemma loop_inv_dispatcher:
  assumes "loop_inv K B X M el w" and "pd_notifier d = pd_notifier (el_dispatcher el)"
  shows "loop_inv K B X M (el\<lparr>el_dispatcher := d\<rparr>) w"
  using assms by (simp add: loop_inv_defs pd_notificationFd_def)

lemma loop_inv_error: "loop_inv K B X M (el\<lparr>el_error_number := n\<rparr>) w = loop_inv K B X M el w"
  by (simp add: loop_inv_defs)

lemma dom_put [simp]: "m fd = Some x \<Longrightarrow> dom (m(fd \<mapsto> y)) = dom m"
  by (auto simp: dom_def)

lemma put_connection_simps [simp]:
  "el_connections (put_connection fd cs c el) = (el_connections el)(fd \<mapsto> cs\<lparr>cs_connection := c\<rparr>)"
  "el_listener (put_connection fd cs c el) = el_listener el"
  "el_epoll (put_connection fd cs c el) = el_epoll el"
  "el_dispatcher (put_connection fd cs c el) = el_dispatcher el"
  "el_next_connection_id (put_connection fd cs c el) = el_next_connection_id el"
  by (simp_all add: put_connection_def)

lemma id_table_put [simp]:
  "el_connections el fd = Some cs \<Longrightarrow> cs_id cs' = cs_id cs \<Longrightarrow>
     id_table (put_connection fd cs' c el) = id_table el"
  by (auto simp: id_table_def)

lemma loop_inv_put:
  assumes "loop_inv K B X M el w" and "fd \<in> X" and "el_connections el fd = Some cs"
    and "conn_fd c = fd" and "cs_id cs' = cs_id cs"
  shows "loop_inv K B X M (put_connection fd cs' c el) w"
  using assms
  by (auto simp: loop_inv_def descriptors_ok_def watched_ok_def)

text \<open>The handles a loop owns for its whole life.\<close>

definition same_handles :: "EventLoop \<Rightarrow> EventLoop \<Rightarrow> bool" where
  "same_handles el el' \<longleftrightarrow> el_listener el' = el_listener el \<and> el_epoll el' = el_epoll el
     \<and> pd_notifier (el_dispatcher el') = pd_notifier (el_dispatcher el)"

lemma same_handles_refl [simp]: "same_handles el el"
  by (simp add: same_handles_def)

lemma same_handles_trans: "same_handles a b \<Longrightarrow> same_handles b c \<Longrightarrow> same_handles a c"
  by (simp add: same_handles_def)

abbreviation kernel_for :: "'w os \<Rightarrow> 'w view \<Rightarrow> EventLoop \<Rightarrow> bool" where
  "kernel_for os K el \<equiv> server_kernel os K (ep_fd (el_epoll el)) (notifier_fd el)"

lemma kernel_for_same: "kernel_for os K el \<Longrightarrow> same_handles el el' \<Longrightarrow> kernel_for os K el'"
  by (simp add: same_handles_def pd_notificationFd_def)

section \<open>Closing a connection\<close>

lemma closeConnection_some:
  assumes k: "kernel_for os K el" and d: "descriptors_ok K B el w"
    and cs: "el_connections el fd = Some cs" and close: "closeConnection os fd el w = (el', w')"
  shows "el' = el\<lparr>el_connections := (el_connections el)(fd := None)\<rparr>"
    and "v_interest K w' = (v_interest K w)(fd := None)" and "v_open K w' = v_open K w - {fd}"
    and "v_accepted K w' = v_accepted K w" and "same_streams K {fd} w w'" and "v_ctr K w' = v_ctr K w"
proof -
  note kD = server_kernelD [OF k]
  obtain r w1 where rm: "epoll_remove os (el_epoll el) fd w = (r, w1)" by fastforce
  have fd: "0 \<le> fd" "conn_fd (cs_connection cs) = fd" "fd \<noteq> notifier_fd el"
    using d cs by (auto simp: descriptors_ok_def)
  then have w': "w' = sys_close os fd w1"
    and el': "el' = el\<lparr>el_connections := (el_connections el)(fd := None)\<rparr>"
    using close cs rm by (auto simp: closeConnection_def conn_destroy_def conn_fd_def socket_defs)
  note rmv = epoll_control_view(3) [OF kD(9) rm] and rmi = epoll_remove_post [OF kD(4) rm]
  show "el' = el\<lparr>el_connections := (el_connections el)(fd := None)\<rparr>" by (fact el')
  show "v_interest K w' = (v_interest K w)(fd := None)"
    unfolding w' using epoll_contractD(5) [OF kD(4)] rmi by simp
  show "v_open K w' = v_open K w - {fd}" "v_accepted K w' = v_accepted K w"
    unfolding w' using close_frameD(1,2) [OF kD(10)] rmv by simp_all
  show "v_ctr K w' = v_ctr K w" unfolding w' using close_frameD(4) [OF kD(10)] rmv fd(3) by simp
  show "same_streams K {fd} w w'"
    unfolding w' using close_frameD(3) [OF kD(10), of fd w1] rmv by (simp add: same_streams_def)
qed

lemma loop_inv_absent:
  assumes "loop_inv K B X M el w" and "el_connections el fd = None"
  shows "loop_inv K B (X - {fd}) M el w"
  using assms unfolding loop_inv_def watched_ok_def by (metis Diff_iff option.distinct(1) singletonD)

lemma ids_ok_erase:
  "ids_ok n M next_id ids \<Longrightarrow> ids_ok n M next_id (ids(fd := None))"
  by (auto simp: ids_ok_def)

lemma id_table_erase:
  "id_table (el\<lparr>el_connections := (el_connections el)(fd := None)\<rparr>) = (id_table el)(fd := None)"
  by (auto simp: id_table_def)

lemma closeConnection_inv:
  assumes k: "kernel_for os K el" and inv: "loop_inv K B X M el w"
    and close: "closeConnection os fd el w = (el', w')"
  shows "loop_inv K B (X - {fd}) M el' w'" and "el_dispatcher el' = el_dispatcher el"
    and "same_handles el el'" and "v_ctr K w' = v_ctr K w" and "same_streams K {fd} w w'"
    and "el_connections el' = (el_connections el)(fd := None)"
proof -
  have "loop_inv K B (X - {fd}) M el' w' \<and> el_dispatcher el' = el_dispatcher el \<and> same_handles el el'
    \<and> v_ctr K w' = v_ctr K w \<and> same_streams K {fd} w w'
    \<and> el_connections el' = (el_connections el)(fd := None)"
  proof (cases "el_connections el fd")
    case None
    with close loop_inv_absent [OF inv None] show ?thesis by (simp add: closeConnection_def fun_upd_idem)
  next
    case (Some cs)
    note d = loop_invD(1) [OF inv]
    note post = closeConnection_some [OF k d Some close]
    have "fd \<noteq> listener_fd el" "fd \<noteq> notifier_fd el" using d Some by (auto simp: descriptors_ok_def)
    then have "watched_ok K (X - {fd}) el' w'"
      using loop_invD(2) [OF inv] post(1,2) by (auto simp: watched_ok_def)
    moreover have "descriptors_ok K B el' w'"
      using d post(1,3) Some by (auto simp: descriptors_ok_def)
    moreover have "client_ok K w' M g cg" if "el_connections el' g = Some cg" "g \<notin> X - {fd}" for g cg
      using that post(1) loop_invD(4) [OF inv] client_ok_streams [OF _ post(5)] by (auto split: if_splits)
    moreover have "ids_ok (v_accepted K w') M (el_next_connection_id el') (id_table el')"
      using ids_ok_erase [OF loop_invD(3) [OF inv], of fd] post(1,4) by (simp add: id_table_erase)
    ultimately show ?thesis using post by (simp add: loop_inv_def same_handles_def)
  qed
  then show "loop_inv K B (X - {fd}) M el' w'" "el_dispatcher el' = el_dispatcher el"
    "same_handles el el'" "v_ctr K w' = v_ctr K w" "same_streams K {fd} w w'"
    "el_connections el' = (el_connections el)(fd := None)" by simp_all
qed

section \<open>Updating the interest\<close>

lemma updateInterest_inv:
  assumes k: "kernel_for os K el" and inv: "loop_inv K B X M el w"
    and cs: "el_connections el fd = Some cs" and c: "cs_connection cs = c"
    and upd: "updateInterest os el c w = (ok, w')"
  shows "ok \<Longrightarrow> client_ok K w M fd cs \<Longrightarrow> loop_inv K B (X - {fd}) M el w'"
    and "\<not> ok \<Longrightarrow> loop_inv K B X M el w'" and "v_ctr K w' = v_ctr K w" and "same_streams K {} w w'"
proof -
  note kD = server_kernelD [OF k] and d = loop_invD(1) [OF inv]
  have fd: "conn_fd c = fd" "fd \<noteq> listener_fd el" "fd \<noteq> notifier_fd el"
    using d cs c by (auto simp: descriptors_ok_def)
  then obtain r where r: "epoll_modify os (el_epoll el) fd (interest_for c) w = (r, w')"
    and ok: "ok = epo_success r"
    using upd by (auto simp: updateInterest_def interest_for_def Let_def split: prod.splits if_splits)
  note view = epoll_control_view(2) [OF kD(9) r] and post = epoll_modify_post(1) [OF kD(4) r]
  show "v_ctr K w' = v_ctr K w" and str: "same_streams K {} w w'" using view by simp_all
  have keep: "descriptors_ok K B el w'" "ids_ok (v_accepted K w') M (el_next_connection_id el) (id_table el)"
    using d loop_invD(3) [OF inv] view by (simp_all add: descriptors_ok_def)
  show "loop_inv K B X M el w'" if "\<not> ok"
    using loop_inv_quiet [OF inv, of w'] view post that ok
    by (simp add: same_tables_def same_streams_def)
  show "loop_inv K B (X - {fd}) M el w'" if "ok" "client_ok K w M fd cs"
  proof -
    have "watched_ok K (X - {fd}) el w'"
      using loop_invD(2) [OF inv] post that(1) ok fd cs c by (auto simp: watched_ok_def)
    moreover have "client_ok K w' M g cg" if "el_connections el g = Some cg" "g \<notin> X - {fd}" for g cg
      using that cs \<open>client_ok K w M fd cs\<close> loop_invD(4) [OF inv, of g cg]
        client_ok_streams [OF _ str, of M g cg] by auto
    ultimately show ?thesis using keep by (simp add: loop_inv_def)
  qed
qed

section \<open>The results still to be handled\<close>

lemma ids_ok_submit:
  assumes "ids_ok n M next_id ids" and "ids (res_client_fd r) = Some (res_connection_id r)"
    and "res_response r = ack_payload"
  shows "ids_ok n (add_mset r M) next_id ids"
  using assms by (auto simp: ids_ok_def)

lemma ids_ok_handled: "ids_ok n (add_mset r M) next_id ids \<Longrightarrow> ids_ok n M next_id ids"
  by (simp add: ids_ok_def)

lemma client_ok_elsewhere:
  "res_client_fd r \<noteq> fd \<or> res_connection_id r \<noteq> cs_id cs \<Longrightarrow>
     client_ok K w (add_mset r M) fd cs = client_ok K w M fd cs"
  by (auto simp: client_ok_def)

lemma loop_inv_submit:
  assumes inv: "loop_inv K B X M el w" and cs: "el_connections el fd = Some cs" and X: "fd \<in> X"
    and r: "res_client_fd r = fd" "res_connection_id r = cs_id cs" "res_response r = ack_payload"
  shows "loop_inv K B X (add_mset r M) el w"
proof -
  have "client_ok K w (add_mset r M) g cg" if "el_connections el g = Some cg" "g \<notin> X" for g cg
    using loop_invD(4) [OF inv that] client_ok_elsewhere [of r g cg K w M] X r(1) that(2) by auto
  with inv ids_ok_submit [OF loop_invD(3) [OF inv], of r] cs r show ?thesis
    by (auto simp: loop_inv_def id_table_def)
qed

lemma loop_inv_discard:
  assumes inv: "loop_inv K B X (add_mset r M) el w"
    and other: "id_table el (res_client_fd r) \<noteq> Some (res_connection_id r)"
  shows "loop_inv K B X M el w"
proof -
  have "client_ok K w M fd cs" if "el_connections el fd = Some cs" "fd \<notin> X" for fd cs
  proof -
    have "res_client_fd r \<noteq> fd \<or> res_connection_id r \<noteq> cs_id cs"
      using other that(1) by (auto simp: id_table_def)
    with loop_invD(4) [OF inv that] show ?thesis by (simp add: client_ok_elsewhere)
  qed
  with inv show ?thesis by (auto simp: loop_inv_def dest: ids_ok_handled)
qed

lemma loop_inv_handled:
  assumes inv: "loop_inv K B X (add_mset r M) el w" and X: "res_client_fd r \<in> X"
  shows "loop_inv K B X M el w"
proof -
  have "client_ok K w M fd cs" if "el_connections el fd = Some cs" "fd \<notin> X" for fd cs
    using loop_invD(4) [OF inv that] client_ok_elsewhere [of r fd cs K w M] X that by auto
  with inv show ?thesis by (auto simp: loop_inv_def dest: ids_ok_handled)
qed

section \<open>The worker threads and the submission of frames\<close>

abbreviation announced :: "'w view \<Rightarrow> consumer \<Rightarrow> EventLoop \<Rightarrow> 'w \<Rightarrow> bool" where
  "announced K pc el w \<equiv> result_announced (v_ctr K) (el_dispatcher el) w pc"

lemma backgrounds_inv:
  assumes k: "kernel_for os K el" and inv: "loop_inv K B X M el w" and ann: "announced K pc el w"
    and bg: "(background_step os)\<^sup>*\<^sup>* (el_dispatcher el, w) (d, w')"
  shows "loop_inv K B X M (el\<lparr>el_dispatcher := d\<rparr>) w'" and "outstanding d = outstanding (el_dispatcher el)"
    and "pd_notifier d = pd_notifier (el_dispatcher el)" and "same_streams K {} w w'"
    and "result_announced (v_ctr K) d w' pc"
proof -
  note kD = server_kernelD [OF k]
  have valid: "efd_valid (pd_notifier (el_dispatcher el))"
    using loop_invD(1) [OF inv] by (simp add: descriptors_ok_def efd_valid_def pd_notificationFd_def)
  note view = backgrounds_view [OF bg kD(8) [unfolded pd_notificationFd_def]]
  then show "outstanding d = outstanding (el_dispatcher el)"
    and n: "pd_notifier d = pd_notifier (el_dispatcher el)" and str: "same_streams K {} w w'"
    by (simp_all add: outstanding_def)
  have "loop_inv K B X M el w'"
    by (rule loop_inv_quiet [OF inv]) (use view in \<open>simp_all add: same_streams_def\<close>)
  with n show "loop_inv K B X M (el\<lparr>el_dispatcher := d\<rparr>) w'" by (intro loop_inv_dispatcher)
  show "result_announced (v_ctr K) d w' pc"
    using backgrounds_announced [OF bg kD(3) [unfolded pd_notificationFd_def] valid ann] by simp
qed

lemma submit_outstanding:
  assumes "pd_trySubmit task d = (st, d')"
  shows "outstanding d' =
      (if st = sub_Success then add_mset (processFrame task) (outstanding d) else outstanding d)"
    and "pd_notifier d' = pd_notifier d"
    and "result_announced ctr d w pc \<Longrightarrow> result_announced ctr d' w pc"
  using submit_frames [OF assms] submit_keeps [OF assms] by (simp_all add: outstanding_def result_announced_def)

lemma submitFrame_inv:
  assumes k: "kernel_for os K el" and sched: "workers_run os sched"
    and inv: "loop_inv K B {fd} (outstanding (el_dispatcher el)) el w" and ann: "announced K pc el w"
    and cs: "el_connections el fd = Some cs"
    and sub: "submitFrameForProcessing sched fd (cs_id cs) p el w = (ok, el', w')"
  shows "loop_inv K B {fd} (outstanding (el_dispatcher el')) el' w'" and "announced K pc el' w'"
    and "el_connections el' = el_connections el" and "same_handles el el'" and "same_streams K {} w w'"
    and "addressed fd (cs_id cs) (outstanding (el_dispatcher el')) =
      addressed fd (cs_id cs) (outstanding (el_dispatcher el)) + (if ok then 1 else 0)"
proof -
  let ?task = "\<lparr>task_client_fd = fd, task_connection_id = cs_id cs, task_payload = p\<rparr>"
  obtain d w1 where s: "sched (el_dispatcher el, w) = (d, w1)" by fastforce
  obtain st d' where t: "pd_trySubmit ?task d = (st, d')" by fastforce
  have el': "el' = el\<lparr>el_dispatcher := d'\<rparr>" and w': "w' = w1" and ok: "ok = (st = sub_Success)"
    using sub s t by (auto simp: submitFrameForProcessing_def split: SubmitStatus.splits)
  have "(background_step os)\<^sup>*\<^sup>* (el_dispatcher el, w) (d, w1)"
    using sched s by (metis workers_run_def)
  note bg = backgrounds_inv [OF k inv ann this] and sub' = submit_outstanding [OF t]
  have "loop_inv K B {fd} (outstanding d') (el\<lparr>el_dispatcher := d\<rparr>) w1"
    using loop_inv_submit [OF bg(1), of fd cs "processFrame ?task"] bg(1,2) sub'(1) cs by simp
  from loop_inv_dispatcher [OF this, of d'] sub'(2)
  show "loop_inv K B {fd} (outstanding (el_dispatcher el')) el' w'" by (simp add: el' w')
  show "announced K pc el' w'" using sub'(3) [OF bg(5)] by (simp add: el' w')
  show "el_connections el' = el_connections el" "same_handles el el'" "same_streams K {} w w'"
    using bg sub' by (simp_all add: el' w' same_handles_def)
  show "addressed fd (cs_id cs) (outstanding (el_dispatcher el')) =
      addressed fd (cs_id cs) (outstanding (el_dispatcher el)) + (if ok then 1 else 0)"
    using bg(2) sub'(1) by (simp add: el' ok)
qed

lemma submit_frames_inv:
  assumes sched: "workers_run os sched" and "kernel_for os K el"
    and "loop_inv K B {fd} (outstanding (el_dispatcher el)) el w" and "announced K pc el w"
    and "el_connections el fd = Some cs"
    and "submit_frames_of sched fd (cs_id cs) ps el w = (ok, el', w')"
  shows "loop_inv K B {fd} (outstanding (el_dispatcher el')) el' w' \<and> announced K pc el' w'
    \<and> el_connections el' = el_connections el \<and> same_handles el el' \<and> same_streams K {} w w'
    \<and> (ok \<longrightarrow> addressed fd (cs_id cs) (outstanding (el_dispatcher el')) =
         addressed fd (cs_id cs) (outstanding (el_dispatcher el)) + length ps)"
  using assms(2-)
proof (induction ps arbitrary: el w)
  case Nil
  then show ?case by simp
next
  case (Cons p ps)
  obtain ok1 el1 w1 where sub: "submitFrameForProcessing sched fd (cs_id cs) p el w = (ok1, el1, w1)"
    by (metis prod_cases3)
  note one = submitFrame_inv [OF Cons.prems(1) sched Cons.prems(2,3,4) sub]
  show ?case
  proof (cases ok1)
    case True
    with Cons.prems(5) sub have rest: "submit_frames_of sched fd (cs_id cs) ps el1 w1 = (ok, el', w')" by simp
    from Cons.IH [OF kernel_for_same [OF Cons.prems(1) one(4)] one(1,2) _ rest] one Cons.prems(4) True
    show ?thesis by (auto intro: same_handles_trans same_trans)
  next
    case False
    with Cons.prems(5) sub one show ?thesis by auto
  qed
qed

section \<open>Reading, answering and writing keep a connection served\<close>

lemma replicate_ack_snoc:
  "concat (replicate n x) @ x = concat (replicate (Suc n) x)"
  by (induction n) simp_all

lemma served_respond:
  assumes "served K w fd c (Suc k)" and "conn_in c' = conn_in c"
    and "conn_out c' = conn_out c @ encode_frame ack_payload"
  shows "served K w fd c' k"
proof -
  from assms(1) obtain fs n where "parse_frames (v_in K fd w) = (fs, Incomplete, conn_in c)"
    "v_out K fd w @ conn_out c = concat (replicate n (encode_frame ack_payload))" "length fs = n + Suc k"
    by (auto simp: served_def)
  with assms(2,3) replicate_ack_snoc [of n "encode_frame ack_payload"] show ?thesis
    by (metis served_def add_Suc_right add_Suc append_assoc)
qed

lemma served_read:
  assumes "served K w fd c k" and "v_out K fd w' = v_out K fd w" and "v_in K fd w' = v_in K fd w @ rx"
    and "parse_frames (conn_in c @ rx) = (frames, Incomplete, conn_in c')" and "conn_out c' = conn_out c"
  shows "served K w' fd c' (k + length frames)"
proof -
  from assms(1) obtain fs n where f: "parse_frames (v_in K fd w) = (fs, Incomplete, conn_in c)"
    "v_out K fd w @ conn_out c = concat (replicate n (encode_frame ack_payload))" "length fs = n + k"
    by (auto simp: served_def)
  have "parse_frames (v_in K fd w') = (fs @ frames, Incomplete, conn_in c')"
    using wire.parse_append_incomplete [OF f(1) assms(4)] assms(3) by simp
  then show ?thesis
    unfolding served_def using f(2,3) assms(2,5)
    by (intro exI [of _ "fs @ frames"] exI [of _ n]) simp
qed

lemma served_flush:
  assumes "served K w fd c k" and "v_in K fd w' = v_in K fd w"
    and "sent_prefix (v_out K) fd (conn_out c) w m w'"
    and "conn_in c' = conn_in c" and "conn_out c' = drop m (conn_out c)"
  shows "served K w' fd c' k"
  using assms by (simp add: served_def sent_prefix_def)

lemma conn_parts [simp]:
  "conn_fd (c\<lparr>conn_write_buffer := b\<rparr>) = conn_fd c" "conn_in (c\<lparr>conn_write_buffer := b\<rparr>) = conn_in c"
  "conn_out (c\<lparr>conn_decoder := d\<rparr>) = conn_out c"
  by (simp_all add: conn_fd_def conn_in_def conn_out_def)

section \<open>Handling results\<close>

lemma queue_ack:
  assumes "conn_wf c" and "queueFrame e ack_payload c = (st, c')"
  shows "st = fq_queued" "conn_wf c'" "conn_fd c' = conn_fd c" "conn_in c' = conn_in c"
    "conn_out c' = conn_out c @ encode_frame ack_payload"
  using queueFrame_post [OF assms] by (simp_all, (metis conn_parts)+)

lemma handle_result_matching:
  assumes cs: "el_connections el (res_client_fd r) = Some cs" "cs_id cs = res_connection_id r"
    and q: "queueFrame e (res_response r) (cs_connection cs) = (fq_queued, c)"
    and u: "updateInterest os (put_connection (res_client_fd r) cs c el) c w = (ok, w1)"
  shows "handle_result e os r el w =
    (if ok then (put_connection (res_client_fd r) cs c el, w1)
     else closeConnection os (res_client_fd r) (put_connection (res_client_fd r) cs c el) w1)"
  using assms by (simp add: handle_result_def put_connection_def Let_def)

lemma handle_result_inv:
  assumes k: "kernel_for os K el" and inv: "loop_inv K B {} (add_mset r M) el w"
    and h: "handle_result e os r el w = (el', w')"
  shows "loop_inv K B {} M el' w' \<and> el_dispatcher el' = el_dispatcher el \<and> same_handles el el'
    \<and> v_ctr K w' = v_ctr K w"
proof (cases "id_table el (res_client_fd r) = Some (res_connection_id r)")
  case False
  then have "el' = el" "w' = w"
    using h by (auto simp: handle_result_def id_table_def split: option.splits if_splits)
  with loop_inv_discard [OF inv False] show ?thesis by simp
next
  case True
  let ?fd = "res_client_fd r"
  from True obtain cs where cs: "el_connections el ?fd = Some cs" "cs_id cs = res_connection_id r"
    by (auto simp: id_table_def)
  have ack: "res_response r = ack_payload" using loop_invD(3) [OF inv] by (simp add: ids_ok_def)
  have ok: "client_ok K w (add_mset r M) ?fd cs" using loop_invD(4) [OF inv cs(1)] by simp
  then have wf: "conn_wf (cs_connection cs)" by (simp add: client_ok_def)
  obtain st c where q: "queueFrame e ack_payload (cs_connection cs) = (st, c)" by fastforce
  note qa = queue_ack [OF wf q]
  let ?el = "put_connection ?fd cs c el"
  have fd: "conn_fd c = ?fd" using qa(3) loop_invD(1) [OF inv] cs(1) by (auto simp: descriptors_ok_def)
  have "loop_inv K B {?fd} (add_mset r M) el w" using loop_inv_weaken [OF inv] by simp
  from loop_inv_put [OF this _ cs(1) fd refl] have put: "loop_inv K B {?fd} (add_mset r M) ?el w" by simp
  have put: "loop_inv K B {?fd} M ?el w" using loop_inv_handled [OF put] by simp
  have ok': "client_ok K w M ?fd (cs\<lparr>cs_connection := c\<rparr>)"
    using ok qa cs(2) served_respond [of K w ?fd "cs_connection cs" _ c] by (simp add: client_ok_def)
  obtain up w1 where u: "updateInterest os ?el c w = (up, w1)" by fastforce
  have kp: "kernel_for os K ?el" using k by simp
  have cs': "el_connections ?el ?fd = Some (cs\<lparr>cs_connection := c\<rparr>)" by simp
  note upd = updateInterest_inv [OF kp put cs' _ u, simplified]
  note res = handle_result_matching [OF cs _ u, of e, unfolded ack, OF q [unfolded qa(1)], unfolded h]
  show ?thesis
  proof (cases up)
    case True
    with res upd(1) [OF True ok'] upd(3) show ?thesis by (simp add: same_handles_def)
  next
    case False
    with res have "closeConnection os ?fd ?el w1 = (el', w')" by simp
    from closeConnection_inv [OF kp upd(2) [OF False] this] upd(3) show ?thesis
      by (simp add: same_handles_def)
  qed
qed

lemma handle_results_inv:
  "kernel_for os K el \<Longrightarrow> loop_inv K B {} (mset rs + M) el w \<Longrightarrow> handle_results e os rs el w = (el', w') \<Longrightarrow>
     loop_inv K B {} M el' w' \<and> el_dispatcher el' = el_dispatcher el \<and> same_handles el el'
     \<and> v_ctr K w' = v_ctr K w"
proof (induction rs arbitrary: el w)
  case Nil
  then show ?case by simp
next
  case (Cons r rs)
  obtain el1 w1 where one: "handle_result e os r el w = (el1, w1)" by fastforce
  have "loop_inv K B {} (add_mset r (mset rs + M)) el w" using Cons.prems(2) by simp
  from handle_result_inv [OF Cons.prems(1) this one]
  have 1: "loop_inv K B {} (mset rs + M) el1 w1" "el_dispatcher el1 = el_dispatcher el"
    "same_handles el el1" "v_ctr K w1 = v_ctr K w" by auto
  from Cons.prems(3) one have "handle_results e os rs el1 w1 = (el', w')" by simp
  from Cons.IH [OF kernel_for_same [OF Cons.prems(1) 1(3)] 1(1) this] 1 show ?case
    by (auto intro: same_handles_trans)
qed

lemma handleProcessingResults_inv:
  assumes k: "kernel_for os K el" and sched: "workers_run os sched"
    and inv: "loop_inv K B {} (outstanding (el_dispatcher el)) el w" and ann: "announced K Idle el w"
    and h: "handleProcessingResults e os sched el w = Some (go, el', w')"
  shows "loop_inv K B {} (outstanding (el_dispatcher el')) el' w' \<and> announced K Idle el' w'
    \<and> same_handles el el'"
proof -
  note kD = server_kernelD [OF k]
  obtain d w1 where s: "sched (el_dispatcher el, w) = (d, w1)" by fastforce
  have "(background_step os)\<^sup>*\<^sup>* (el_dispatcher el, w) (d, w1)" using sched s by (metis workers_run_def)
  note bg = backgrounds_inv [OF k inv ann this]
  have kd: "kernel_for os K (el\<lparr>el_dispatcher := d\<rparr>)" using k bg(3) by (simp add: pd_notificationFd_def)
  have valid: "efd_valid (pd_notifier d)"
    using loop_invD(1) [OF bg(1)] by (simp add: descriptors_ok_def efd_valid_def pd_notificationFd_def)
  obtain n w2 where c: "pd_consumeNotifications os d w1 = Some (n, w2)"
    using h s by (auto simp: handleProcessingResults_def split: option.splits)
  then have c': "consume os (pd_notifier d) w1 = Some (n, w2)" by (simp add: pd_consumeNotifications_def)
  note dD = server_kernelD [OF kd, simplified, unfolded pd_notificationFd_def]
  note post = consume_post [OF dD(3) valid c'] and view = consume_view [OF dD(8) c']
  have inv2: "loop_inv K B {} (outstanding d) (el\<lparr>el_dispatcher := d\<rparr>) w2"
    using loop_inv_quiet [OF bg(1), of w2] view bg(2) by simp
  show ?thesis
  proof (cases "efr_success n")
    case False
    then obtain en where el': "el' = (el\<lparr>el_dispatcher := d\<rparr>)\<lparr>el_error_number := en\<rparr>
        \<or> el' = el\<lparr>el_dispatcher := d\<rparr>" "w' = w2"
      using h s c by (auto simp: handleProcessingResults_def split: if_splits)
    have "result_announced (v_ctr K) d w2 Idle"
      using bg(5) post False by (auto simp: result_announced_def)
    with el' inv2 bg(3) show ?thesis by (auto simp: loop_inv_error same_handles_def)
  next
    case True
    obtain d1 w3 where s1: "sched (d, w2) = (d1, w3)" by fastforce
    have bg1: "(background_step os)\<^sup>*\<^sup>* (el_dispatcher (el\<lparr>el_dispatcher := d\<rparr>), w2) (d1, w3)"
      using sched s1 by (metis workers_run_def EventLoop.select_convs(7) EventLoop.surjective
          EventLoop.update_convs(7))
    have tk: "announced K Taking (el\<lparr>el_dispatcher := d\<rparr>) w2" by (simp add: result_announced_def)
    note bg' = backgrounds_inv [OF kd inv2 tk bg1]
    let ?d2 = "d1\<lparr>pd_completed := []\<rparr>"
    have res: "handle_results e os (pd_completed d1) (el\<lparr>el_dispatcher := ?d2\<rparr>) w3 = (el', w')"
      using h s c True s1 by (auto simp: handleProcessingResults_def pd_takeCompleted_eq)
    have inv3: "loop_inv K B {} (mset (pd_completed d1) + outstanding ?d2) (el\<lparr>el_dispatcher := ?d2\<rparr>) w3"
      using loop_inv_dispatcher [OF bg'(1), of ?d2] bg'(2) by (simp add: outstanding_def ac_simps)
    have "kernel_for os K (el\<lparr>el_dispatcher := ?d2\<rparr>)" using kd bg'(3) by (simp add: pd_notificationFd_def)
    from handle_results_inv [OF this inv3 res] bg'(3) bg(3) show ?thesis
      by (auto simp: same_handles_def result_announced_def)
  qed
qed

section \<open>Client events\<close>

lemma handleClientEvent_write_inv:
  assumes k: "kernel_for os K el" and inv: "loop_inv K B {fd} M el w"
    and cs0: "el_connections el fd = Some cs0" "cs_id cs0 = cs_id cs" and fd: "conn_fd c = fd"
    and ok: "client_ok K w M fd (cs\<lparr>cs_connection := c\<rparr>)"
    and h: "handleClientEvent_write os fd cs c el w = Some (el', w')"
  shows "loop_inv K B {} M el' w' \<and> el_dispatcher el' = el_dispatcher el \<and> same_handles el el'
    \<and> v_ctr K w' = v_ctr K w"
proof -
  note kD = server_kernelD [OF k]
  define step where "step = (if wantsWrite c then
      map_option (\<lambda>(fr, c, w1). (ff_status fr = ff_error, c, w1)) (flushWrites os c w)
    else Some (False, c, w))"
  obtain err c1 w1 where st: "step = Some (err, c1, w1)"
    using h by (auto simp: handleClientEvent_write_def step_def [symmetric] split: option.splits)
  have after: "same_tables K w w1 \<and> v_ctr K w1 = v_ctr K w \<and> same_streams K {fd} w w1 \<and> conn_fd c1 = fd
    \<and> client_ok K w1 M fd (cs\<lparr>cs_connection := c1\<rparr>)"
  proof (cases "wantsWrite c")
    case True
    then obtain fr where fl: "flushWrites os c w = Some (fr, c1, w1)"
      using st by (auto simp: step_def)
    have wf: "conn_wf c" using ok by (simp add: client_ok_def)
    note post = flushWrites_post [OF kD(1) wf fl] and view = flushWrites_view [OF kD(6) fl]
    have c1: "conn_fd c1 = fd" "conn_in c1 = conn_in c" using post(2) fd by (metis conn_parts)+
    have "same_streams K {fd} w w1"
      using post(3) view(3) fd by (auto simp: same_streams_def sent_prefix_def)
    moreover have "client_ok K w1 M fd (cs\<lparr>cs_connection := c1\<rparr>)"
      using ok post c1 view(3) fd
        served_flush [of K w fd c "addressed fd (cs_id cs) M" w1 "ff_bytes_transferred fr" c1]
      by (simp add: client_ok_def)
    ultimately show ?thesis using view c1 by simp
  next
    case False
    with st have "c1 = c" "w1 = w" by (auto simp: step_def)
    with ok fd show ?thesis by simp
  qed
  let ?el = "put_connection fd cs c1 el"
  have inv1: "loop_inv K B {fd} M ?el w1"
    using loop_inv_put [OF loop_inv_quiet [OF inv] _ cs0(1)] after cs0(2) by simp
  have kp: "kernel_for os K ?el" using k by simp
  have cs': "el_connections ?el fd = Some (cs\<lparr>cs_connection := c1\<rparr>)" by simp
  obtain up w2 where u: "updateInterest os ?el c1 w1 = (up, w2)" by fastforce
  note upd = updateInterest_inv [OF kp inv1 cs' _ u, simplified]
  have cl: "loop_inv K B {} M el' w' \<and> el_dispatcher el' = el_dispatcher el \<and> same_handles el el'
      \<and> v_ctr K w' = v_ctr K w"
    if "closeConnection os fd ?el v = (el', w')" "loop_inv K B {fd} M ?el v" "v_ctr K v = v_ctr K w" for v
    using closeConnection_inv [OF kp that(2,1)] that(3) by (simp add: same_handles_def)
  consider (err) "closeConnection os fd ?el w1 = (el', w')" | (no) "\<not> up" "closeConnection os fd ?el w2 = (el', w')"
    | (yes) "up" "el' = ?el" "w' = w2"
    using h st u
    by (auto simp: handleClientEvent_write_def step_def [symmetric] Let_def split: if_splits)
  then show ?thesis
  proof cases
    case err
    then show ?thesis using cl inv1 after by simp
  next
    case no
    then show ?thesis using cl upd(2,3) after by simp
  next
    case yes
    then show ?thesis using upd(1,3) after by (simp add: same_handles_def)
  qed
qed

text \<open>What \<open>handleClientEvent\<close> has established once it has read and submitted the frames.\<close>

lemma read_and_submit_inv:
  assumes k: "kernel_for os K el" and sched: "workers_run os sched"
    and inv: "loop_inv K B {} (outstanding (el_dispatcher el)) el w" and ann: "announced K pc el w"
    and cs: "el_connections el fd = Some cs"
    and rd: "readAvailable e os (cs_connection cs) w = Some (r, c, w1)"
    and sub: "submit_frames_of sched fd (cs_id cs) (cr_frames r) (put_connection fd cs c el) w1 = (ok, el2, w2)"
  shows "loop_inv K B {fd} (outstanding (el_dispatcher el2)) el2 w2" and "announced K pc el2 w2"
    and "same_handles el el2" and "el_connections el2 fd = Some (cs\<lparr>cs_connection := c\<rparr>)"
    and "conn_fd c = fd"
    and "ok \<Longrightarrow> cr_status r \<noteq> cr_protocol_error \<Longrightarrow>
      client_ok K w2 (outstanding (el_dispatcher el2)) fd (cs\<lparr>cs_connection := c\<rparr>)"
proof -
  note kD = server_kernelD [OF k]
  let ?M = "outstanding (el_dispatcher el)"
  have cok: "client_ok K w ?M fd cs" using loop_invD(4) [OF inv cs] by simp
  then have wf: "conn_wf (cs_connection cs)" by (simp add: client_ok_def)
  have fd: "conn_fd (cs_connection cs) = fd" using loop_invD(1) [OF inv] cs by (simp add: descriptors_ok_def)
  note post = readAvailable_post [OF kD(2) wf rd] and view = readAvailable_view [OF kD(7) rd]
  show c: "conn_fd c = fd" using post(3) fd by (metis conn_fd_decoder)
  let ?el = "put_connection fd cs c el"
  have inv1: "loop_inv K B {fd} ?M el w1"
    using loop_inv_quiet [OF loop_inv_weaken [OF inv, of "{fd}"]] view fd by simp
  have putinv: "loop_inv K B {fd} (outstanding (el_dispatcher ?el)) ?el w1"
    using loop_inv_put [OF inv1 _ cs c refl] by simp
  have ann1: "announced K pc ?el w1" using ann view(2) by (simp add: result_announced_def)
  have kp: "kernel_for os K ?el" and cs1: "el_connections ?el fd = Some (cs\<lparr>cs_connection := c\<rparr>)"
    using k by simp_all
  from submit_frames_inv [OF sched kp putinv ann1 cs1, of "cr_frames r" ok el2 w2] sub
  have S: "loop_inv K B {fd} (outstanding (el_dispatcher el2)) el2 w2" "announced K pc el2 w2"
    "el_connections el2 = el_connections ?el" "same_handles ?el el2" "same_streams K {} w1 w2"
    "ok \<longrightarrow> addressed fd (cs_id cs) (outstanding (el_dispatcher el2)) =
       addressed fd (cs_id cs) ?M + length (cr_frames r)" by auto
  then show "loop_inv K B {fd} (outstanding (el_dispatcher el2)) el2 w2" "announced K pc el2 w2"
    "same_handles el el2" "el_connections el2 fd = Some (cs\<lparr>cs_connection := c\<rparr>)"
    by (simp_all add: same_handles_def)
  show "client_ok K w2 (outstanding (el_dispatcher el2)) fd (cs\<lparr>cs_connection := c\<rparr>)"
    if okk: "ok" and np: "cr_status r \<noteq> cr_protocol_error"
  proof -
    obtain rx where "v_in K fd w1 = v_in K fd w @ rx"
      "parse_frames (conn_in (cs_connection cs) @ rx) = (cr_frames r, Incomplete, conn_in c)"
      using post(1) np fd by (auto simp: read_end_def)
    moreover have "conn_out c = conn_out (cs_connection cs)" using post(3) by (metis conn_parts(3))
    ultimately have "served K w1 fd c (addressed fd (cs_id cs) ?M + length (cr_frames r))"
      using served_read cok view(3) by (metis client_ok_def)
    then show ?thesis
      using S(5,6) okk np post(4) by (simp add: client_ok_def served_def same_streams_def)
  qed
qed

lemma handleClientEvent_inv:
  assumes k: "kernel_for os K el" and sched: "workers_run os sched"
    and inv: "loop_inv K B {} (outstanding (el_dispatcher el)) el w" and ann: "announced K pc el w"
    and h: "handleClientEvent e os sched fd events el w = Some (el', w')"
  shows "loop_inv K B {} (outstanding (el_dispatcher el')) el' w' \<and> announced K pc el' w'
    \<and> same_handles el el'"
proof (cases "el_connections el fd")
  case None
  with h inv ann show ?thesis by (simp add: handleClientEvent_def)
next
  case (Some cs)
  have close: "loop_inv K B {} (outstanding (el_dispatcher el')) el' w' \<and> announced K pc el' w'
      \<and> same_handles el el'"
    if "closeConnection os fd el2 w2 = (el', w')" "loop_inv K B {fd} (outstanding (el_dispatcher el2)) el2 w2"
      "announced K pc el2 w2" "same_handles el el2" for el2 w2
    using closeConnection_inv [OF kernel_for_same [OF k that(4)] that(2,1)] that(3,4)
    by (simp add: result_announced_def same_handles_def)
  have inv': "loop_inv K B {fd} (outstanding (el_dispatcher el)) el w" using loop_inv_weaken [OF inv] by simp
  consider (failed) "closeConnection os fd el w = (el', w')"
    | (read) "events AND (EPOLLERR OR EPOLLHUP) = 0" "events AND (EPOLLIN OR EPOLLRDHUP) \<noteq> 0"
    | (quiet) "handleClientEvent_write os fd cs (cs_connection cs) el w = Some (el', w')"
    using h Some by (auto simp: handleClientEvent_def split: if_splits)
  then show ?thesis
  proof cases
    case failed
    then show ?thesis using close inv' ann by simp
  next
    case read
    then obtain r c w1 where rd: "readAvailable e os (cs_connection cs) w = Some (r, c, w1)"
      using h Some by (auto simp: handleClientEvent_def split: option.splits)
    obtain ok el2 w2 where sub:
      "submit_frames_of sched fd (cs_id cs) (cr_frames r) (put_connection fd cs c el) w1 = (ok, el2, w2)"
      by (metis prod_cases3)
    note rs = read_and_submit_inv [OF k sched inv ann Some rd sub]
    consider (gone) "closeConnection os fd el2 w2 = (el', w')"
      | (on) "ok" "cr_status r \<noteq> cr_protocol_error" "handleClientEvent_write os fd cs c el2 w2 = Some (el', w')"
      using h Some read rd sub by (auto simp: handleClientEvent_def split: if_splits)
    then show ?thesis
    proof cases
      case gone
      then show ?thesis using close rs by simp
    next
      case on
      from handleClientEvent_write_inv [OF kernel_for_same [OF k rs(3)] rs(1) rs(4) _ rs(5) rs(6) on(3)] on(1,2)
      show ?thesis using rs(2,3) by (auto simp: result_announced_def intro: same_handles_trans)
    qed
  next
    case quiet
    have fd: "conn_fd (cs_connection cs) = fd" using loop_invD(1) [OF inv] Some by (simp add: descriptors_ok_def)
    from handleClientEvent_write_inv [OF k inv' Some refl fd _ quiet] loop_invD(4) [OF inv Some] ann
    show ?thesis by (auto simp: result_announced_def)
  qed
qed

section \<open>Accepting connections\<close>

lemma unat_next_id: "ids_ok n M next_id ids \<Longrightarrow> unat next_id = n + 1"
  by (simp add: ids_ok_def unat_of_nat del: of_nat_add of_nat_Suc)

lemma ids_ok_skip:
  assumes "ids_ok n M next_id ids" and "n + 1 < 2 ^ 64 - 1"
  shows "ids_ok (n + 1) M (next_id + 1) ids"
  using assms by (fastforce simp: ids_ok_def)

lemma ids_ok_issue:
  assumes ok: "ids_ok n M next_id ids" and n: "n + 1 < 2 ^ 64 - 1"
  shows "ids_ok (n + 1) M (next_id + 1) (ids(fd \<mapsto> next_id))"
proof -
  note u = unat_next_id [OF ok]
  have "i \<noteq> next_id" if "ids g = Some i" for g i using ok that u by (fastforce simp: ids_ok_def)
  moreover have "next_id \<noteq> res_connection_id r" if "r \<in># M" for r
    using ok that u by (fastforce simp: ids_ok_def)
  ultimately show ?thesis
    using ids_ok_skip [OF ok n] u unfolding ids_ok_def fun_upd_def
    by (intro conjI) (simp_all, blast+)
qed

lemma addressed_fresh:
  assumes "ids_ok n M next_id ids"
  shows "addressed fd next_id M = 0"
proof -
  have "res_connection_id r \<noteq> next_id" if "r \<in># M" for r
    using assms that unat_next_id [OF assms] by (fastforce simp: ids_ok_def)
  then have "filter_mset (\<lambda>r. res_client_fd r = fd \<and> res_connection_id r = next_id) M = {#}"
    by (simp add: filter_mset_eq_conv)
  then show ?thesis by (simp add: addressed_def)
qed

lemma new_connection_parts [simp]:
  "conn_in (new_connection s) = []" "conn_out (new_connection s) = []"
  "conn_fd (new_connection s) = sock_fd s"
  by (simp_all add: conn_in_def conn_out_def conn_fd_def new_connection_def)

lemma interest_for_new [simp]: "interest_for (new_connection s) = kClientEvents"
  using wantsWrite_iff [of "new_connection s"] by (simp add: interest_for_def)

lemma served_new: "v_in K fd w = [] \<Longrightarrow> v_out K fd w = [] \<Longrightarrow> served K w fd (new_connection s) 0"
  using parse_frames_nil by (simp add: served_def)

lemma register_client_inv:
  assumes k: "kernel_for os K el" and inv: "loop_inv K B {} M el w"
    and acc: "sys_accept4 os lfd flags w = (Ok c, w1)" and reg: "register_client os c el w1 = (el', w')"
  shows "loop_inv K B {} M el' w' \<and> el_dispatcher el' = el_dispatcher el \<and> same_handles el el'
    \<and> v_ctr K w' = v_ctr K w"
proof -
  note kD = server_kernelD [OF k] and A = accept_contractD(1) [OF server_kernelD(5) [OF k] acc]
  note d = loop_invD(1) [OF inv] and ids = loop_invD(3) [OF inv]
  have new: "el_connections el c = None" "c \<notin> B" "c \<noteq> listener_fd el" "c \<noteq> notifier_fd el" "v_interest K w c = None"
    using A d loop_invD(2) [OF inv] by (auto simp: descriptors_ok_def watched_ok_def)
  let ?cs = "\<lparr>cs_id = el_next_connection_id el, cs_connection = new_connection (Socket_of_fd c)\<rparr>"
  let ?el = "el\<lparr>el_next_connection_id := el_next_connection_id el + 1,
      el_connections := (el_connections el)(c \<mapsto> ?cs)\<rparr>"
  have mv: "fst (socket_move (Socket_of_fd c)) = Socket_of_fd c"
    by (simp add: socket_defs Socket_of_fd_def)
  obtain r w2 where add: "epoll_add os (el_epoll el) c kClientEvents w1 = (r, w2)" by fastforce
  note view = epoll_control_view(1) [OF kD(9) add] and post = epoll_add_post(1) [OF kD(4) add]
  have old: "client_ok K v M g cg" if "el_connections el g = Some cg" "same_streams K {c} w v" for g cg v
  proof -
    have "g \<noteq> c" using that(1) new(1) by auto
    then show ?thesis using client_ok_streams [OF loop_invD(4) [OF inv that(1)] that(2)] by simp
  qed
  have str: "same_streams K {c} w w2" using A view by (simp add: same_streams_def)
  show ?thesis
  proof (cases "epo_success r")
    case True
    have res: "el' = ?el" "w' = w2" using reg new(1) add True mv by (simp_all add: register_client_def Let_def)
    have tbl: "id_table ?el = (id_table el)(c \<mapsto> el_next_connection_id el)" by (auto simp: id_table_def)
    have "ids_ok (v_accepted K w2) M (el_next_connection_id ?el) (id_table ?el)"
      using ids_ok_issue [OF ids] A view tbl by simp
    moreover have "descriptors_ok K B ?el w2"
      using d A view new by (auto simp: descriptors_ok_def Socket_of_fd_def)
    moreover have "watched_ok K {} ?el w2"
      using loop_invD(2) [OF inv] A post True new by (auto simp: watched_ok_def)
    moreover have "client_ok K w2 M g cg" if "el_connections ?el g = Some cg" for g cg
      using that old [OF _ str] addressed_fresh [OF ids] A view
        served_new [of K c w2 "Socket_of_fd c"] by (auto simp: client_ok_def same_streams_def split: if_splits)
    ultimately show ?thesis using res A view by (simp add: loop_inv_def same_handles_def)
  next
    case False
    have res: "el' = el\<lparr>el_next_connection_id := el_next_connection_id el + 1\<rparr>" "w' = sys_close os c w2"
      using reg new(1) add False mv A
      by (auto simp: register_client_def Let_def conn_destroy_def new_connection_def socket_defs
          Socket_of_fd_def fun_upd_idem)
    note closed = close_frameD [OF kD(10), of c w2]
    have undone: "v_open K w' = v_open K w" "v_accepted K w' = v_accepted K w + 1" "v_ctr K w' = v_ctr K w"
      "v_interest K w' = v_interest K w" "same_streams K {c} w w'"
      using res closed A view post False new(4,5) str epoll_contractD(5) [OF kD(4), of c w2]
      by (auto simp: same_streams_def fun_upd_idem)
    have "ids_ok (v_accepted K w') M (el_next_connection_id el') (id_table el')"
      using ids_ok_skip [OF ids] A undone(2) res by (simp add: id_table_def [abs_def])
    then show ?thesis
      using inv res(1) undone old [OF _ undone(5)]
      by (simp add: loop_inv_def descriptors_ok_def watched_ok_def same_handles_def)
  qed
qed

lemma acceptReadyClients_inv:
  assumes k: "kernel_for os K el" and inv: "loop_inv K B {} M el w" and M: "M = outstanding (el_dispatcher el)"
    and ann: "announced K pc el w" and h: "acceptReadyClients os el w = Some (go, el', w')"
  shows "loop_inv K B {} (outstanding (el_dispatcher el')) el' w' \<and> announced K pc el' w' \<and> same_handles el el'"
proof -
  let ?I = "\<lambda>(el1, w1). loop_inv K B {} M el1 w1 \<and> el_dispatcher el1 = el_dispatcher el
    \<and> announced K pc el1 w1 \<and> same_handles el el1"
  have "?I (snd (go, el', w'))"
  proof (rule loop_rule [OF h [unfolded acceptReadyClients_def], where I = ?I])
    show "?I (el, w)" using inv ann by simp
  next
    fix s s' assume I: "?I s" and b: "accept_body os s = Inl s'"
    obtain el1 w1 where s: "s = (el1, w1)" by (cases s)
    have "same_handles el el1" using I s by simp
    note k1 = kernel_for_same [OF k this]
    obtain q w2 where a: "sys_accept4 os (listener_fd el1) SOCK_NONBLOCK_CLOEXEC w1 = (q, w2)" by fastforce
    show "?I s'"
    proof (cases q)
      case (Ok c)
      obtain el2 w3 where r: "register_client os c el1 w2 = (el2, w3)" by fastforce
      have "s' = (el2, w3)" using b s a Ok r by (simp add: accept_body_def)
      with register_client_inv [OF k1 _ a [unfolded Ok] r] I s show ?thesis
        by (auto simp: result_announced_def intro: same_handles_trans)
    next
      case (Fail en)
      then have "s' = (el1, w2)" using b s a by (auto simp: accept_body_def split: if_splits)
      with accept_contractD(2) [OF server_kernelD(5) [OF k1] a [unfolded Fail]] I s
      show ?thesis by (auto intro: loop_inv_quiet simp: result_announced_def)
    qed
  next
    fix s r assume I: "?I s" and b: "accept_body os s = Inr r"
    obtain el1 w1 where s: "s = (el1, w1)" by (cases s)
    have "same_handles el el1" using I s by simp
    note k1 = kernel_for_same [OF k this]
    obtain q w2 where a: "sys_accept4 os (listener_fd el1) SOCK_NONBLOCK_CLOEXEC w1 = (q, w2)" by fastforce
    then obtain en where f: "q = Fail en" using b s by (cases q) (auto simp: accept_body_def)
    have "loop_inv K B {} M el1 w2" "v_ctr K w2 = v_ctr K w1"
      using accept_contractD(2) [OF server_kernelD(5) [OF k1] a [unfolded f]] I s
      by (auto intro: loop_inv_quiet)
    moreover have "snd r = (el1, w2) \<or> snd r = (el1\<lparr>el_error_number := en\<rparr>, w2)"
      using b s a f by (auto simp: accept_body_def split: if_splits)
    ultimately show "?I (snd r)"
      using I s by (auto simp: loop_inv_error result_announced_def same_handles_def)
  qed
  then show ?thesis using M by auto
qed

section \<open>One event\<close>

definition server_inv :: "'w view \<Rightarrow> fd set \<Rightarrow> EventLoop \<Rightarrow> 'w \<Rightarrow> bool" where
  "server_inv K B el w \<longleftrightarrow> loop_inv K B {} (outstanding (el_dispatcher el)) el w \<and> announced K Idle el w"

lemma server_inv_error [simp]: "server_inv K B (el\<lparr>el_error_number := n\<rparr>) w = server_inv K B el w"
  by (simp add: server_inv_def loop_inv_error)

lemma same_handles_error [simp]:
  "same_handles el (el1\<lparr>el_error_number := n\<rparr>) = same_handles el el1"
  by (simp add: same_handles_def)

lemma handle_event_cases:
  assumes "handle_event e os sched ev el w = Some (go, el', w')"
  obtains (results) "handleProcessingResults e os sched el w = Some (go, el', w')"
  | (accept) b el1 n where "acceptReadyClients os el w = Some (b, el1, w')"
      "el' = el1 \<or> el' = el1\<lparr>el_error_number := n\<rparr>"
  | (client) "handleClientEvent e os sched (ev_data_fd ev) (ev_events ev) el w = Some (el', w')"
  | (other) n where "el' = el \<or> el' = el\<lparr>el_error_number := n\<rparr>" "w' = w"
  using assms
  by (auto simp: handle_event_def Let_def split: if_splits option.splits prod.splits)

lemma handle_event_inv:
  assumes k: "kernel_for os K el" and sched: "workers_run os sched" and inv: "server_inv K B el w"
    and h: "handle_event e os sched ev el w = Some (go, el', w')"
  shows "server_inv K B el' w' \<and> same_handles el el'"
proof -
  from inv have li: "loop_inv K B {} (outstanding (el_dispatcher el)) el w" and an: "announced K Idle el w"
    by (simp_all add: server_inv_def)
  show ?thesis using h
  proof (cases rule: handle_event_cases)
    case results
    from handleProcessingResults_inv [OF k sched li an this] show ?thesis by (simp add: server_inv_def)
  next
    case (accept b el1 n)
    from acceptReadyClients_inv [OF k li refl an accept(1)] have "server_inv K B el1 w' \<and> same_handles el el1"
      by (simp add: server_inv_def)
    with accept show ?thesis by auto
  next
    case client
    from handleClientEvent_inv [OF k sched li an this] show ?thesis by (simp add: server_inv_def)
  next
    case (other n)
    with inv show ?thesis by auto
  qed
qed

section \<open>Reachable states\<close>

text \<open>
  The event loop waits, handles the events it was given one after the other, and is
  interleaved with the worker threads. The relation allows any event at any time, also one
  that went stale while the batch it belongs to was handled.
\<close>

inductive el_step ::
  "endian \<Rightarrow> 'w os \<Rightarrow> 'w sched \<Rightarrow> EventLoop \<times> 'w \<Rightarrow> EventLoop \<times> 'w \<Rightarrow> bool" for e os sched where
  workers: "background_step os (el_dispatcher el, w) (d, w') \<Longrightarrow>
    el_step e os sched (el, w) (el\<lparr>el_dispatcher := d\<rparr>, w')"
| wait: "epoll_wait os (el_epoll el) events timeout w = Some (r, events', w') \<Longrightarrow>
    el_step e os sched (el, w) (el, w')"
| wait_failed: "epoll_wait os (el_epoll el) events timeout w = Some (r, events', w') \<Longrightarrow>
    \<not> EpollWaitResult_completed r \<Longrightarrow>
    el_step e os sched (el, w) (el\<lparr>el_error_number := epw_error_number r\<rparr>, w')"
| event: "handle_event e os sched ev el w = Some (go_on, el', w') \<Longrightarrow>
    el_step e os sched (el, w) (el', w')"

lemma el_step_inv:
  assumes "el_step e os sched (el, w) (el', w')" and k: "kernel_for os K el"
    and sched: "workers_run os sched" and inv: "server_inv K B el w"
  shows "server_inv K B el' w' \<and> same_handles el el'"
  using assms(1)
proof cases
  case (workers d)
  from workers(2) have "(background_step os)\<^sup>*\<^sup>* (el_dispatcher el, w) (d, w')" by blast
  from backgrounds_inv [OF k inv [unfolded server_inv_def, THEN conjunct1]
      inv [unfolded server_inv_def, THEN conjunct2] this] workers(1) show ?thesis
    by (simp add: server_inv_def same_handles_def)
next
  case (wait events timeout r events')
  from epoll_wait_view [OF server_kernelD(9) [OF k] wait(2)] inv wait(1) show ?thesis
    by (auto simp: server_inv_def result_announced_def intro: loop_inv_quiet)
next
  case (wait_failed events timeout r events')
  from epoll_wait_view [OF server_kernelD(9) [OF k] wait_failed(2)] inv
  have "server_inv K B el w'" by (auto simp: server_inv_def result_announced_def intro: loop_inv_quiet)
  then show ?thesis using wait_failed(1) by simp
next
  case (event ev go_on)
  from handle_event_inv [OF k sched inv event] show ?thesis .
qed

lemma el_steps_inv:
  assumes "(el_step e os sched)\<^sup>*\<^sup>* (el, w) (el', w')" and k: "kernel_for os K el"
    and sched: "workers_run os sched" and inv: "server_inv K B el w"
  shows "server_inv K B el' w' \<and> same_handles el el'"
  using assms(1)
proof (induction rule: rtranclp_induct2)
  case refl
  then show ?case using inv by simp
next
  case (step el1 w1 el2 w2)
  then have "server_inv K B el1 w1" "same_handles el el1" by auto
  with el_step_inv [OF step.hyps(2) kernel_for_same [OF k] sched] show ?case
    by (blast intro: same_handles_trans)
qed

text \<open>The loop of \<open>run\<close> makes such steps.\<close>

lemma handle_events_steps:
  "handle_events e os sched evs el w = Some (go, el', w') \<Longrightarrow> (el_step e os sched)\<^sup>*\<^sup>* (el, w) (el', w')"
proof (induction evs arbitrary: el w)
  case (Cons ev evs)
  obtain go1 el1 w1 where 1: "handle_event e os sched ev el w = Some (go1, el1, w1)"
    using Cons.prems by (auto split: option.splits)
  with Cons have "(el_step e os sched)\<^sup>*\<^sup>* (el1, w1) (el', w')" by (auto split: if_splits)
  then show ?case using el_step.event [OF 1] by (rule converse_rtranclp_into_rtranclp [rotated])
qed simp

lemma run_body_continue:
  assumes "run_body e os sched (el, evs, w) = Inl (el', evs', w')"
  shows "(el_step e os sched)\<^sup>*\<^sup>* (el, w) (el', w')"
proof -
  from assms obtain r v where "epoll_wait os (el_epoll el) evs (-1) w = Some (r, evs', v)"
    and "handle_events e os sched (take (nat (epw_event_count r)) evs') el v = Some (True, el', w')"
    by (auto simp: run_body_def split: option.splits if_splits)
  then show ?thesis
    by (meson converse_rtranclp_into_rtranclp el_step.wait handle_events_steps)
qed

lemma run_body_leave:
  assumes "run_body e os sched (el, evs, w) = Inr (Some (st, el', w'))"
  shows "st = 1 \<and> (el_step e os sched)\<^sup>*\<^sup>* (el, w) (el', w')"
proof -
  from assms obtain r evs' v where wt: "epoll_wait os (el_epoll el) evs (-1) w = Some (r, evs', v)"
    by (auto simp: run_body_def split: option.splits)
  show ?thesis
  proof (cases "EpollWaitResult_completed r")
    case True
    with assms wt have "handle_events e os sched (take (nat (epw_event_count r)) evs') el v = Some (False, el', w')"
      and "st = 1"
      by (auto simp: run_body_def split: option.splits if_splits)
    then show ?thesis
      using wt by (meson converse_rtranclp_into_rtranclp el_step.wait handle_events_steps)
  next
    case False
    with assms wt have "st = 1" "el' = el\<lparr>el_error_number := epw_error_number r\<rparr>" "w' = v"
      by (auto simp: run_body_def)
    then show ?thesis using el_step.wait_failed [OF wt False] by blast
  qed
qed

lemma run_steps:
  assumes "run e os sched el w = Some (st, el', w')"
  shows "st = 1 \<and> (el_step e os sched)\<^sup>*\<^sup>* (el, w) (el', w')"
proof (cases "el_valid el")
  case False
  with assms show ?thesis by (simp add: run_def)
next
  case True
  let ?evs = "replicate kMaxEvents \<lparr>ev_events = 0, ev_data_fd = 0\<rparr>"
  let ?I = "\<lambda>(el1, evs :: epoll_event list, w1). (el_step e os sched)\<^sup>*\<^sup>* (el, w) (el1, w1)"
  let ?Q = "\<lambda>r. \<forall>st el' w'. r = Some (st, el', w') \<longrightarrow> st = 1 \<and> (el_step e os sched)\<^sup>*\<^sup>* (el, w) (el', w')"
  from assms True obtain r where r: "loop (run_body e os sched) (el, ?evs, w) = Some r"
    and rs: "r = Some (st, el', w')" by (auto simp: run_def bind_eq_Some_conv)
  have "?Q r"
  proof (rule loop_rule [OF r, where I = ?I])
    show "?I (el, ?evs, w)" by simp
  next
    fix s s' assume "?I s" "run_body e os sched s = Inl s'"
    then show "?I s'" by (cases s; cases s') (auto dest: run_body_continue)
  next
    fix s q assume "?I s" "run_body e os sched s = Inr q"
    then show "?Q q" by (cases s) (auto dest!: run_body_leave)
  qed
  with rs show ?thesis by simp
qed

end
