(* ===== verification/Event_Loop_Properties.thy ===== *)
theory Event_Loop_Properties
  imports Event_Loop_Invariant
begin

text \<open>
  What the invariant of the event loop means for the server: every request of a live
  connection is answered once, answers never reach another connection, descriptors and
  the epoll interest list follow the connection table, and completed answers are always
  announced. The second half states how the handlers react to failures.
\<close>

section \<open>A new event loop\<close>

lemma setNonBlocking_view:
  assumes "startup_contract os K" and "setNonBlocking os fd w = (r, w')"
  shows "same_tables K w w'"
proof -
  have g: "same_tables K v v'" if "sys_fcntl_getfl os fd v = (q, v')" for v v' q
    using assms(1) that unfolding startup_contract_def by blast
  have s: "same_tables K v v'" if "sys_fcntl_setfl os fd flags v = (q, v')" for v v' q flags
    using assms(1) that unfolding startup_contract_def by blast
  show ?thesis
    using assms(2) by (auto simp: setNonBlocking_def split: prod.splits sys_ret.splits if_splits
        dest: g s intro: same_trans(1))
qed

lemma EventLoop_setup_valid:
  assumes "EventLoop_setup os el0 w = (el, w')" and "el_valid el" and "\<not> el_initialized el0"
  obtains r w1 r1 w2 r2 where "socket_valid (el_listener el0)" "epoll_valid (el_epoll el0)"
    "pd_valid (el_dispatcher el0)" "setNonBlocking os (listener_fd el0) w = (r, w1)"
    "epoll_add os (el_epoll el0) (listener_fd el0) EPOLLIN w1 = (r1, w2)" "epo_success r1"
    "epoll_add os (el_epoll el0) (notifier_fd el0) EPOLLIN w2 = (r2, w')" "epo_success r2"
    "el_connections el = el_connections el0" "el_next_connection_id el = el_next_connection_id el0"
  using assms by (auto simp: EventLoop_setup_def el_valid_def split: if_splits prod.splits)

lemma make_EventLoop_parts:
  assumes "make_EventLoop os spawn listener n c w = (Inr el, w')"
  obtains w1 w2 d where "make_Epoll os w = (el_epoll el, w1)"
    "make_ProcessingDispatcher os spawn n c w1 = (Inr d, w2)" "d = el_dispatcher el"
    "listener_fd el = sock_fd listener"
    "EventLoop_setup os \<lparr>el_listener = el_listener el, el_epoll = el_epoll el, el_connections = Map.empty,
       el_next_connection_id = 1, el_error_number = 0, el_initialized = False, el_dispatcher = d\<rparr> w2 = (el, w')"
proof -
  from assms obtain ep w1 d w2 where p: "make_Epoll os w = (ep, w1)"
    "make_ProcessingDispatcher os spawn n c w1 = (Inr d, w2)"
    and set: "EventLoop_setup os \<lparr>el_listener = fst (socket_move listener), el_epoll = ep,
       el_connections = Map.empty, el_next_connection_id = 1, el_error_number = 0,
       el_initialized = False, el_dispatcher = d\<rparr> w2 = (el, w')"
    by (auto simp: make_EventLoop_def Let_def split: prod.splits sum.splits)
  from set have "el_listener el = fst (socket_move listener)" "el_epoll el = ep" "el_dispatcher el = d"
    by (auto simp: EventLoop_setup_def split: if_splits prod.splits)
  note parts = this
  show ?thesis
    by (rule that [of w1 d w2]) (use p set parts in \<open>simp_all add: socket_defs\<close>)
qed

lemma make_Epoll_view:
  assumes "startup_contract os K" and "make_Epoll os w = (ep, w')" and "epoll_valid ep"
  shows "ep_fd ep \<notin> v_open K w" "v_open K w' = insert (ep_fd ep) (v_open K w)"
    "v_accepted K w' = v_accepted K w" "v_interest K w' = Map.empty"
proof -
  from assms(2,3) have "sys_epoll_create1 os EPOLL_CLOEXEC w = (Ok (ep_fd ep), w')"
    by (auto simp: make_Epoll_def epoll_valid_def split: prod.splits sys_ret.splits)
  with assms(1) show "ep_fd ep \<notin> v_open K w" "v_open K w' = insert (ep_fd ep) (v_open K w)"
    "v_accepted K w' = v_accepted K w" "v_interest K w' = Map.empty"
    unfolding startup_contract_def by blast+
qed

lemma make_dispatcher_view:
  assumes "startup_contract os K" and "make_ProcessingDispatcher os spawn n c w = (Inr d, w')"
    and "pd_valid d"
  shows "pd_notificationFd d \<notin> v_open K w" "v_open K w' = insert (pd_notificationFd d) (v_open K w)"
    "v_accepted K w' = v_accepted K w" "v_interest K w' = v_interest K w"
    "outstanding d = {#}" "pd_completed d = []"
proof -
  from assms(2,3) have "sys_eventfd os 0 EFD_NONBLOCK_CLOEXEC w = (Ok (pd_notificationFd d), w')"
    by (auto simp: make_ProcessingDispatcher_def make_EventFd_def pd_valid_def efd_valid_def
        pd_notificationFd_def split: prod.splits sys_ret.splits sum.splits if_splits)
  with assms(1) show "pd_notificationFd d \<notin> v_open K w"
    "v_open K w' = insert (pd_notificationFd d) (v_open K w)"
    "v_accepted K w' = v_accepted K w" "v_interest K w' = v_interest K w"
    unfolding startup_contract_def by blast+
  show "outstanding d = {#}" "pd_completed d = []"
    using make_ProcessingDispatcher_start [OF assms(2)] by (simp_all add: outstanding_def)
qed

lemma make_EventLoop_inv:
  assumes start: "startup_contract os K" and made: "make_EventLoop os spawn listener n c w = (Inr el, w')"
    and valid: "el_valid el" and k: "kernel_for os K el"
    and l: "sock_fd listener \<in> v_open K w" and acc: "v_accepted K w = 0"
  shows "server_inv K (v_open K w') el w'"
proof -
  obtain w1 w2 d where ep: "make_Epoll os w = (el_epoll el, w1)"
    and dp: "make_ProcessingDispatcher os spawn n c w1 = (Inr d, w2)" and d: "d = el_dispatcher el"
    and lfd: "listener_fd el = sock_fd listener"
    and set: "EventLoop_setup os \<lparr>el_listener = el_listener el, el_epoll = el_epoll el,
       el_connections = Map.empty, el_next_connection_id = 1, el_error_number = 0,
       el_initialized = False, el_dispatcher = d\<rparr> w2 = (el, w')"
    using made by (rule make_EventLoop_parts)
  obtain r w3 r1 w4 r2 where v: "epoll_valid (el_epoll el)" "pd_valid d"
    and nb: "setNonBlocking os (listener_fd el) w2 = (r, w3)"
    and a1: "epoll_add os (el_epoll el) (listener_fd el) EPOLLIN w3 = (r1, w4)" "epo_success r1"
    and a2: "epoll_add os (el_epoll el) (notifier_fd el) EPOLLIN w4 = (r2, w')" "epo_success r2"
    and conns: "el_connections el = Map.empty" "el_next_connection_id el = 1"
    by (rule EventLoop_setup_valid [OF set valid]) (auto simp: d)
  note E = make_Epoll_view [OF start ep v(1)] and D = make_dispatcher_view [OF start dp v(2)]
  note N = setNonBlocking_view [OF start nb] and kD = server_kernelD [OF k]
  note A1 = epoll_control_view(1) [OF kD(9) a1(1)] epoll_add_post [OF kD(4) a1(1)]
  note A2 = epoll_control_view(1) [OF kD(9) a2(1)] epoll_add_post [OF kD(4) a2(1)]
  have opened: "v_open K w' = insert (notifier_fd el) (insert (ep_fd (el_epoll el)) (v_open K w))"
    and accd: "v_accepted K w' = 0"
    and watched: "v_interest K w' = [listener_fd el \<mapsto> EPOLLIN, notifier_fd el \<mapsto> EPOLLIN]"
    using E D N A1 A2 a1(2) a2(2) acc d by (simp_all add: same_tables_def)
  have ne: "listener_fd el \<noteq> notifier_fd el" using D(1) E(2) l unfolding lfd d by (metis insertI2)
  have "0 \<le> notifier_fd el" using v(2) d by (simp add: pd_valid_def efd_valid_def pd_notificationFd_def)
  then have "descriptors_ok K (v_open K w') el w'"
    using opened l lfd ne conns by (simp add: descriptors_ok_def)
  moreover have "watched_ok K {} el w'" using watched ne conns by (auto simp: watched_ok_def)
  moreover have "ids_ok 0 {#} 1 Map.empty" by (simp add: ids_ok_def)
  moreover have "id_table el = Map.empty" using conns by (auto simp: id_table_def)
  ultimately show ?thesis
    using conns accd D(5,6) d by (simp add: server_inv_def loop_inv_def result_announced_def)
qed

text \<open>The states a server can reach after it was set up.\<close>

definition server_reaches ::
  "endian \<Rightarrow> 'w os \<Rightarrow> 'w view \<Rightarrow> 'w sched \<Rightarrow> Socket \<Rightarrow> nat \<Rightarrow> nat \<Rightarrow> 'w \<Rightarrow> fd set \<Rightarrow> EventLoop \<Rightarrow> 'w \<Rightarrow> bool" where
  "server_reaches e os K sched listener n c w0 B el w \<longleftrightarrow>
     (\<exists>spawn el0 w1. make_EventLoop os spawn listener n c w0 = (Inr el0, w1) \<and> el_valid el0
        \<and> sock_fd listener \<in> v_open K w0 \<and> v_accepted K w0 = 0 \<and> B = v_open K w1
        \<and> startup_contract os K \<and> kernel_for os K el0 \<and> workers_run os sched
        \<and> (el_step e os sched)\<^sup>*\<^sup>* (el0, w1) (el, w))"

lemma server_reaches_inv:
  assumes "server_reaches e os K sched listener n c w0 B el w"
  shows "server_inv K B el w" and "kernel_for os K el"
proof -
  from assms obtain spawn el0 w1 where
    m: "make_EventLoop os spawn listener n c w0 = (Inr el0, w1)" "el_valid el0"
      "sock_fd listener \<in> v_open K w0" "v_accepted K w0 = 0" "B = v_open K w1" "startup_contract os K"
    and k: "kernel_for os K el0" and s: "workers_run os sched"
    and steps: "(el_step e os sched)\<^sup>*\<^sup>* (el0, w1) (el, w)"
    unfolding server_reaches_def by blast
  have "server_inv K B el0 w1" using make_EventLoop_inv [OF m(6,1,2) k m(3,4)] m(5) by simp
  from el_steps_inv [OF steps k s this] kernel_for_same [OF k]
  show "server_inv K B el w" and "kernel_for os K el" by blast+
qed

section \<open>A sample server\<close>

text \<open>
  A server on the kernel of \<open>Sample_Kernel\<close>, listening on descriptor 7, with one client
  that connects as descriptor 9. It shows that the hypotheses of the theorems below hold.
\<close>

definition sample_view :: "kernel view" where
  "sample_view = \<lparr>v_interest = k_interest, v_open = k_open, v_accepted = k_accepted,
     v_in = (\<lambda>fd k. k_in k fd), v_out = (\<lambda>fd k. k_out k fd), v_ctr = k_ctr\<rparr>"

lemma sample_view_simps [simp]:
  "v_interest sample_view = k_interest" "v_open sample_view = k_open" "v_accepted sample_view = k_accepted"
  "v_in sample_view fd = (\<lambda>k. k_in k fd)" "v_out sample_view fd = (\<lambda>k. k_out k fd)" "v_ctr sample_view = k_ctr"
  by (simp_all add: sample_view_def)

lemmas sample_unfold = sample_os_def interruptible_def same_tables_def same_streams_def Let_def

lemma sample_send_frame: "send_frame sample_os sample_view"
  by (auto simp: send_frame_def sample_unfold split: if_splits)

lemma sample_recv_frame: "recv_frame sample_os sample_view"
  by (auto simp: recv_frame_def sample_unfold split: if_splits)

lemma sample_eventfd_frame: "eventfd_frame sample_os sample_view nfd"
  by (auto simp: eventfd_frame_def sample_unfold split: if_splits)

lemma sample_close_frame: "close_frame sample_os sample_view nfd"
  by (auto simp: close_frame_def sample_unfold)

lemmas sample_frames = sample_send_frame sample_recv_frame sample_eventfd_frame sample_close_frame

lemma sample_epoll_frame: "epoll_frame sample_os sample_view epfd"
  by (auto simp: epoll_frame_def sample_unfold split: if_splits option.splits epoll_op.splits)

lemma sample_accept_contract: "accept_contract sample_os sample_view"
  by (auto simp: accept_contract_def sample_unfold split: if_splits list.splits)

lemma sample_server_kernel: "server_kernel sample_os sample_view epfd nfd"
  using sample_send_contract sample_recv_contract sample_eventfd_contract sample_epoll_contract
    sample_frames sample_epoll_frame sample_accept_contract
  by (simp add: server_kernel_def sample_view_def)

lemma sample_startup_contract: "startup_contract sample_os sample_view"
  by (auto simp: startup_contract_def sample_unfold split: if_splits)

definition sample_sched :: "kernel sched" where
  "sample_sched s = s"

lemma sample_workers_run: "workers_run sample_os sample_sched"
  by (simp add: workers_run_def sample_sched_def)

definition sample_start :: kernel where
  "sample_start = sample_world\<lparr>k_intr := 0, k_backlog := [9], k_avail := (\<lambda>_. [])(9 := encode_frame [])\<rparr>"

definition sample_up :: kernel where
  "sample_up = sample_start\<lparr>k_open := {3, 4, 7}, k_interest := [7 \<mapsto> EPOLLIN, 4 \<mapsto> EPOLLIN],
     k_flags := (\<lambda>_. 0)(7 := O_NONBLOCK)\<rparr>"

definition sample_loop :: EventLoop where
  "sample_loop = \<lparr>el_listener = Socket_of_fd 7, el_epoll = \<lparr>ep_fd = 3\<rparr>, el_connections = Map.empty,
     el_next_connection_id = 1, el_error_number = 0, el_initialized = True,
     el_dispatcher = sample_dispatcher\<rparr>"

lemma sample_loop_made:
  "make_EventLoop sample_os (\<lambda>_. True) (Socket_of_fd 7) 1 2 sample_start = (Inr sample_loop, sample_up)"
proof -
  let ?w1 = "sample_start\<lparr>k_open := {3, 7}\<rparr>"
  let ?w2 = "sample_start\<lparr>k_open := {3, 4, 7}\<rparr>"
  have 1: "make_Epoll sample_os sample_start = (\<lparr>ep_fd = 3\<rparr>, ?w1)"
    by (simp add: make_Epoll_def sample_os_def sample_start_def sample_world_def)
  have "make_EventFd sample_os 0 ?w1 = (\<lparr>efd_fd = 4, efd_error_number = 0\<rparr>, ?w2)"
    by (simp add: make_EventFd_def sample_os_def sample_start_def sample_world_def insert_commute)
  moreover have "make_ThreadPool (\<lambda>_. True) 1 2 = Inr (pd_pool sample_dispatcher)"
    by (simp add: make_ThreadPool_cases sample_dispatcher_def)
  ultimately have 2: "make_ProcessingDispatcher sample_os (\<lambda>_. True) 1 2 ?w1 = (Inr sample_dispatcher, ?w2)"
    by (simp add: make_ProcessingDispatcher_def efd_valid_def sample_dispatcher_def)
  have 3: "EventLoop_setup sample_os (sample_loop\<lparr>el_initialized := False\<rparr>) ?w2 = (sample_loop, sample_up)"
    by (simp add: EventLoop_setup_def sample_loop_def socket_valid_def Socket_of_fd_def epoll_valid_def
        pd_valid_def efd_valid_def sample_dispatcher_def setNonBlocking_def epoll_add_def controlEpoll_def
        pd_notificationFd_def sample_os_def sample_start_def sample_world_def sample_up_def fun_upd_twist)
  show ?thesis using 1 2 3 by (simp add: make_EventLoop_def socket_defs Socket_of_fd_def sample_loop_def)
qed

definition sample_client :: ClientState where
  "sample_client = \<lparr>cs_id = 1, cs_connection = new_connection (Socket_of_fd 9)\<rparr>"

definition sample_loop1 :: EventLoop where
  "sample_loop1 = sample_loop\<lparr>el_connections := [9 \<mapsto> sample_client], el_next_connection_id := 2\<rparr>"

definition sample_up1 :: kernel where
  "sample_up1 = sample_up\<lparr>k_backlog := [], k_open := {3, 4, 7, 9}, k_accepted := 1,
     k_interest := [7 \<mapsto> EPOLLIN, 4 \<mapsto> EPOLLIN, 9 \<mapsto> kClientEvents]\<rparr>"

lemma sample_accepted:
  "acceptReadyClients sample_os sample_loop sample_up = Some (True, sample_loop1, sample_up1)"
proof -
  have upd: "(\<lambda>_. [])(9 := []) = (\<lambda>_ :: fd. [] :: bytes)" by auto
  have "accept_body sample_os (sample_loop, sample_up) = Inl (sample_loop1, sample_up1)"
    by (simp add: accept_body_def register_client_def Let_def epoll_add_def epoll_valid_def controlEpoll_def
        socket_defs Socket_of_fd_def sample_client_def sample_loop1_def sample_loop_def sample_os_def
        sample_up_def sample_up1_def sample_start_def sample_world_def upd insert_commute)
  moreover have "accept_body sample_os (sample_loop1, sample_up1) = Inr (True, sample_loop1, sample_up1)"
    by (simp add: accept_body_def sample_os_def sample_up1_def sample_loop1_def)
  ultimately show ?thesis
    unfolding acceptReadyClients_def
    using loop_continue [of "accept_body sample_os" "(sample_loop, sample_up)"]
      loop_leave [of "accept_body sample_os" "(sample_loop1, sample_up1)"] by simp
qed

lemma sample_reaches:
  "server_reaches Little sample_os sample_view sample_sched (Socket_of_fd 7) 1 2 sample_start
     {3, 4, 7} sample_loop1 sample_up1"
proof -
  have "handle_event Little sample_os sample_sched \<lparr>ev_events = EPOLLIN, ev_data_fd = 7\<rparr> sample_loop sample_up
      = Some (True, sample_loop1, sample_up1)"
    using sample_accepted
    by (simp add: handle_event_def pd_notificationFd_def sample_loop_def sample_dispatcher_def Socket_of_fd_def)
  then have "(el_step Little sample_os sample_sched)\<^sup>*\<^sup>* (sample_loop, sample_up) (sample_loop1, sample_up1)"
    by (blast intro: el_step.event)
  moreover have "el_valid sample_loop" "(7 :: fd) \<in> k_open sample_start" "k_accepted sample_start = 0"
    "k_open sample_up = {3, 4, 7}"
    by (simp_all add: el_valid_def sample_loop_def sample_start_def sample_world_def sample_up_def)
  ultimately show ?thesis
    unfolding server_reaches_def
    using sample_loop_made sample_startup_contract sample_server_kernel sample_workers_run
    by (intro exI [of _ "\<lambda>_. True"] exI [of _ sample_loop] exI [of _ sample_up])
      (simp add: Socket_of_fd_def)
qed

section \<open>Properties of every reachable state\<close>

text \<open>C1: Every request is answered exactly once, on its own connection. In every state the server
  can reach, whatever the peers send, however the kernel cuts the streams and however the
  worker threads are scheduled, for every live connection: the bytes received on it parse
  as frames with no protocol error, the rest being what its decoder holds; the bytes sent
  on it followed by those in its write buffer are a sequence of encoded acknowledgements;
  and there are as many frames as acknowledgements plus frames of this connection that
  are still with the dispatcher.\<close>

theorem every_frame_answered_once:
  assumes "server_reaches e os K sched listener n c w0 B el w" and "el_connections el fd = Some cs"
  shows "\<exists>frames answers.
      parse_frames (v_in K fd w) = (frames, Incomplete, conn_in (cs_connection cs))
    \<and> v_out K fd w @ conn_out (cs_connection cs) =
        concat (replicate answers (encode_frame (map of_char kAckResponse)))
    \<and> length frames = answers +
        size {#r \<in># image_mset processFrame (open_frames (pd_pool (el_dispatcher el)))
                   + mset (pd_completed (el_dispatcher el)).
               res_client_fd r = fd \<and> res_connection_id r = cs_id cs#}"
proof -
  have "client_ok K w (outstanding (el_dispatcher el)) fd cs"
    using server_reaches_inv(1) [OF assms(1)] assms(2) by (simp add: server_inv_def loop_inv_def)
  then show ?thesis
    unfolding client_ok_def served_def addressed_def outstanding_def ack_payload_def by blast
qed

lemma sample_live: "el_connections sample_loop1 9 = Some sample_client"
  by (simp add: sample_loop1_def)

theorem every_frame_answered_once_witness:
  "\<exists>frames answers.
      parse_frames (k_in sample_up1 9) = (frames, Incomplete, conn_in (cs_connection sample_client))
    \<and> k_out sample_up1 9 @ conn_out (cs_connection sample_client) =
        concat (replicate answers (encode_frame (map of_char kAckResponse)))
    \<and> length frames = answers +
        size {#r \<in># image_mset processFrame (open_frames (pd_pool (el_dispatcher sample_loop1)))
                   + mset (pd_completed (el_dispatcher sample_loop1)).
               res_client_fd r = 9 \<and> res_connection_id r = cs_id sample_client#}"
  using every_frame_answered_once [OF sample_reaches sample_live] by simp

lemma responses_stay_with_their_connection_facts:
  assumes "server_reaches e os K sched listener n c w0 B el w"
  shows "el_connections el f = Some a \<Longrightarrow> el_connections el g = Some b \<Longrightarrow> cs_id a = cs_id b \<Longrightarrow> f = g"
    and "el_connections el f = Some a \<Longrightarrow> 0 < cs_id a \<and> cs_id a < el_next_connection_id el"
    and "r \<in># image_mset processFrame (open_frames (pd_pool (el_dispatcher el)))
              + mset (pd_completed (el_dispatcher el)) \<Longrightarrow>
      res_connection_id r < el_next_connection_id el
      \<and> (\<forall>g b. el_connections el g = Some b \<longrightarrow> cs_id b = res_connection_id r \<longrightarrow> g = res_client_fd r)"
proof -
  have ok: "ids_ok (v_accepted K w) (outstanding (el_dispatcher el)) (el_next_connection_id el) (id_table el)"
    using server_reaches_inv(1) [OF assms] by (simp add: server_inv_def loop_inv_def)
  note u = unat_next_id [OF ok]
  show "f = g" if "el_connections el f = Some a" "el_connections el g = Some b" "cs_id a = cs_id b"
    using ok that unfolding ids_ok_def id_table_def by (metis option.simps(9))
  show "0 < cs_id a \<and> cs_id a < el_next_connection_id el" if "el_connections el f = Some a"
  proof -
    have "id_table el f = Some (cs_id a)" using that by (simp add: id_table_def)
    then have "0 < unat (cs_id a)" "unat (cs_id a) \<le> v_accepted K w" using ok unfolding ids_ok_def by blast+
    then show ?thesis using u by (simp add: word_less_nat_alt)
  qed
  show "res_connection_id r < el_next_connection_id el
      \<and> (\<forall>g b. el_connections el g = Some b \<longrightarrow> cs_id b = res_connection_id r \<longrightarrow> g = res_client_fd r)"
    if "r \<in># image_mset processFrame (open_frames (pd_pool (el_dispatcher el)))
      + mset (pd_completed (el_dispatcher el))"
  proof -
    from that have r: "r \<in># outstanding (el_dispatcher el)" by (simp add: outstanding_def)
    then have "unat (res_connection_id r) \<le> v_accepted K w" using ok unfolding ids_ok_def by blast
    then have "res_connection_id r < el_next_connection_id el" using u by (simp add: word_less_nat_alt)
    with ok r show ?thesis unfolding ids_ok_def id_table_def by (metis option.simps(9))
  qed
qed

text \<open>C2: Responses never reach another connection. In every reachable state the ids of live
  connections are pairwise different, not zero and smaller than the next id; every result
  still to be delivered carries an id that was already issued, so a connection accepted
  later never matches it, and if a live connection has that id, it is the one under the
  result's descriptor.\<close>

theorem responses_stay_with_their_connection:
  assumes "server_reaches e os K sched listener n c w0 B el w"
  shows "(\<forall>f g a b. el_connections el f = Some a \<longrightarrow> el_connections el g = Some b \<longrightarrow> cs_id a = cs_id b \<longrightarrow> f = g)
    \<and> (\<forall>f a. el_connections el f = Some a \<longrightarrow> 0 < cs_id a \<and> cs_id a < el_next_connection_id el)
    \<and> (\<forall>r. r \<in># image_mset processFrame (open_frames (pd_pool (el_dispatcher el)))
              + mset (pd_completed (el_dispatcher el)) \<longrightarrow>
         res_connection_id r < el_next_connection_id el
         \<and> (\<forall>g b. el_connections el g = Some b \<longrightarrow> cs_id b = res_connection_id r \<longrightarrow> g = res_client_fd r))"
  using responses_stay_with_their_connection_facts [OF assms] by blast

theorem responses_stay_with_their_connection_witness:
  "0 < cs_id sample_client \<and> cs_id sample_client < el_next_connection_id sample_loop1"
  using responses_stay_with_their_connection [OF sample_reaches] sample_live by blast

lemma descriptors_follow_connections_facts:
  assumes "server_reaches e os K sched listener n c w0 B el w"
  shows "v_open K w = B \<union> dom (el_connections el)" and "B \<inter> dom (el_connections el) = {}"
    and "connectionCount el = card (v_open K w - B)"
    and "v_interest K w = (\<lambda>fd.
      if fd = sock_fd (el_listener el) \<or> fd = pd_notificationFd (el_dispatcher el) then Some EPOLLIN
      else map_option (\<lambda>cs. if conn_out (cs_connection cs) \<noteq> [] then kClientEvents OR EPOLLOUT
                            else kClientEvents) (el_connections el fd))"
    and "el_connections el fd = Some cs \<Longrightarrow> conn_fd (cs_connection cs) = fd"
proof -
  note inv = server_reaches_inv(1) [OF assms]
  have d: "descriptors_ok K B el w" and x: "watched_ok K {} el w"
    and cl: "\<And>fd cs. el_connections el fd = Some cs \<Longrightarrow> conn_wf (cs_connection cs)"
    using inv by (auto simp: server_inv_def loop_inv_def client_ok_def)
  show o: "v_open K w = B \<union> dom (el_connections el)" and b: "B \<inter> dom (el_connections el) = {}"
    and "el_connections el fd = Some cs \<Longrightarrow> conn_fd (cs_connection cs) = fd"
    using d by (auto simp: descriptors_ok_def)
  have "v_open K w - B = dom (el_connections el)" using o b by auto
  then show "connectionCount el = card (v_open K w - B)" by (simp add: connectionCount_def)
  show "v_interest K w = (\<lambda>fd.
      if fd = sock_fd (el_listener el) \<or> fd = pd_notificationFd (el_dispatcher el) then Some EPOLLIN
      else map_option (\<lambda>cs. if conn_out (cs_connection cs) \<noteq> [] then kClientEvents OR EPOLLOUT
                            else kClientEvents) (el_connections el fd))"
  proof
    fix fd
    show "v_interest K w fd = (
      if fd = sock_fd (el_listener el) \<or> fd = pd_notificationFd (el_dispatcher el) then Some EPOLLIN
      else map_option (\<lambda>cs. if conn_out (cs_connection cs) \<noteq> [] then kClientEvents OR EPOLLOUT
                            else kClientEvents) (el_connections el fd))"
      using x cl [of fd] wantsWrite_iff
      by (cases "el_connections el fd") (auto simp: watched_ok_def interest_for_def)
  qed
qed

text \<open>C8: No descriptor leaks and epoll watches exactly what it should. In every reachable state
  the open descriptors are those that were open after start-up and one per connection,
  under which the connection is registered; \<open>connectionCount\<close> counts them; and the
  interest list holds the listener and the eventfd for input, every connection for input
  and hang-up, for output exactly when it has bytes to write, and nothing else.\<close>

theorem descriptors_follow_connections:
  assumes "server_reaches e os K sched listener n c w0 B el w"
  shows "v_open K w = B \<union> dom (el_connections el) \<and> B \<inter> dom (el_connections el) = {}
    \<and> connectionCount el = card (v_open K w - B)
    \<and> v_interest K w = (\<lambda>fd.
      if fd = sock_fd (el_listener el) \<or> fd = pd_notificationFd (el_dispatcher el) then Some EPOLLIN
      else map_option (\<lambda>cs. if conn_out (cs_connection cs) \<noteq> [] then kClientEvents OR EPOLLOUT
                            else kClientEvents) (el_connections el fd))
    \<and> (\<forall>fd cs. el_connections el fd = Some cs \<longrightarrow> conn_fd (cs_connection cs) = fd)"
  using descriptors_follow_connections_facts [OF assms] by blast

theorem descriptors_follow_connections_witness:
  "k_open sample_up1 = {3, 4, 7} \<union> dom (el_connections sample_loop1)
   \<and> connectionCount sample_loop1 = card (k_open sample_up1 - {3, 4, 7})"
  using descriptors_follow_connections [OF sample_reaches] by simp

lemma completed_results_wake_the_loop_facts:
  assumes "server_reaches e os K sched listener n c w0 B el w"
    and "pd_completed (el_dispatcher el) \<noteq> []"
  shows "v_interest K w (pd_notificationFd (el_dispatcher el)) = Some EPOLLIN"
    and "0 < v_ctr K w \<or> Executing Notifying \<in> set (tp_workers (pd_pool (el_dispatcher el)))
      \<or> pd_error_number (el_dispatcher el) \<noteq> 0"
proof -
  note inv = server_reaches_inv(1) [OF assms(1)]
  then show "v_interest K w (pd_notificationFd (el_dispatcher el)) = Some EPOLLIN"
    by (simp add: server_inv_def loop_inv_def watched_ok_def)
  have "0 < notifiers p \<longleftrightarrow> Executing Notifying \<in> set (tp_workers p)" for p
    using num_zero_iff [of "\<lambda>w. w = Executing Notifying"] by (metis neq0_conv)
  then show "0 < v_ctr K w \<or> Executing Notifying \<in> set (tp_workers (pd_pool (el_dispatcher el)))
      \<or> pd_error_number (el_dispatcher el) \<noteq> 0"
    using inv assms(2) by (auto simp: server_inv_def result_announced_def)
qed

text \<open>C10: No finished answer stays unnoticed. In every reachable state in which a completed
  result waits for the event loop, epoll watches the eventfd for input, and the eventfd
  is readable, or a worker is about to write to it, or the dispatcher has recorded an
  error of the eventfd.\<close>

theorem completed_results_wake_the_loop:
  assumes "server_reaches e os K sched listener n c w0 B el w"
    and "pd_completed (el_dispatcher el) \<noteq> []"
  shows "v_interest K w (pd_notificationFd (el_dispatcher el)) = Some EPOLLIN
    \<and> (0 < v_ctr K w \<or> Executing Notifying \<in> set (tp_workers (pd_pool (el_dispatcher el)))
       \<or> pd_error_number (el_dispatcher el) \<noteq> 0)"
  using completed_results_wake_the_loop_facts [OF assms] by blast

text \<open>The client's frame is read and submitted, and a worker has processed it.\<close>

definition sample_up2 :: kernel where
  "sample_up2 = sample_up1\<lparr>k_avail := (\<lambda>_. []), k_in := (\<lambda>_. [])(9 := encode_frame [])\<rparr>"

definition sample_loop3 :: EventLoop where
  "sample_loop3 = sample_loop1\<lparr>el_dispatcher := sample_dispatcher\<lparr>
     pd_completed := [processFrame \<lparr>task_client_fd = 9, task_connection_id = 1, task_payload = []\<rparr>],
     pd_pool := (pd_pool sample_dispatcher)\<lparr>tp_workers := [Executing Notifying], tp_notify_one := 1\<rparr>\<rparr>\<rparr>"

lemma sample_client_reads:
  "readAvailable Little sample_os (cs_connection sample_client) sample_up1 =
   Some (\<lparr>cr_status = cr_ready, cr_frames = [[]], cr_error_number = 0\<rparr>, cs_connection sample_client, sample_up2)"
  (is "_ = Some (?r, _, _)")
proof -
  let ?b = "readAvailable_body Little sample_os 9"
  have upd: "(\<lambda>_. [])(9 := []) = (\<lambda>_ :: fd. [] :: bytes)" by auto
  have 1: "?b ([], new_decoder, sample_up1) = Inl ([[]], new_decoder, sample_up2)"
    by (simp add: readAvailable_body_def sample_os_def interruptible_def sample_up2_def sample_up1_def
        sample_up_def sample_start_def sample_world_def kReadBufferSize_def Let_def encode_empty decode_empty_frame upd)
  have 2: "?b ([[]], new_decoder, sample_up2) = Inr (?r, new_decoder, sample_up2)"
    by (simp add: readAvailable_body_def sample_os_def interruptible_def sample_up2_def sample_up1_def
        sample_up_def sample_start_def sample_world_def)
  have "loop ?b ([], new_decoder, sample_up1) = Some (?r, new_decoder, sample_up2)"
    using loop_continue [of ?b, OF 1] loop_leave [of ?b, OF 2] by simp
  then show ?thesis
    by (simp add: readAvailable_def sample_client_def new_connection_def conn_fd_def Socket_of_fd_def)
qed

abbreviation sample_request :: ProcessingTask where
  "sample_request \<equiv> \<lparr>task_client_fd = 9, task_connection_id = 1, task_payload = []\<rparr>"

definition sample_d1 :: ProcessingDispatcher where
  "sample_d1 = sample_dispatcher\<lparr>pd_pool := (pd_pool sample_dispatcher)\<lparr>tp_tasks :=
      \<lparr>bq_capacity = 2, bq_queue = [RunTask sample_request], bq_closed = False\<rparr>, tp_notify_one := 1\<rparr>\<rparr>"

definition sample_d2 :: ProcessingDispatcher where
  "sample_d2 = sample_d1\<lparr>pd_pool := (pd_pool sample_d1)\<lparr>tp_tasks := tp_tasks (pd_pool sample_dispatcher),
      tp_workers := [Executing (RunTask sample_request)]\<rparr>\<rparr>"

lemma sample_client_handled:
  "handle_event Little sample_os sample_sched \<lparr>ev_events = EPOLLIN, ev_data_fd = 9\<rparr> sample_loop1 sample_up1
     = Some (True, sample_loop1\<lparr>el_dispatcher := sample_d1\<rparr>, sample_up2)"
proof -
  let ?el2 = "sample_loop1\<lparr>el_dispatcher := sample_d1\<rparr>"
  have sub: "submit_frames_of sample_sched 9 1 [[]] sample_loop1 sample_up2 = (True, ?el2, sample_up2)"
    by (simp add: submitFrameForProcessing_def sample_sched_def pd_trySubmit_def pd_valid_def efd_valid_def
        pool_trySubmit_def tryPush_def sample_loop1_def sample_loop_def sample_dispatcher_def sample_d1_def)
  have put: "put_connection 9 sample_client (cs_connection sample_client) el = el"
    if "el_connections el 9 = Some sample_client" for el
    using that by (simp add: put_connection_def fun_upd_idem)
  have quiet: "\<not> wantsWrite (cs_connection sample_client)" by (simp add: wantsWrite_iff sample_client_def)
  have upd: "updateInterest sample_os ?el2 (cs_connection sample_client) sample_up2 = (True, sample_up2)"
    using quiet
    by (simp add: updateInterest_def epoll_modify_def controlEpoll_def epoll_valid_def sample_os_def
        sample_client_def Socket_of_fd_def sample_loop1_def sample_loop_def sample_up2_def sample_up1_def
        fun_upd_idem)
  show ?thesis
    using sample_live sample_client_reads sub put quiet upd
    by (simp add: handle_event_def handleClientEvent_def handleClientEvent_write_def pd_notificationFd_def
        sample_loop1_def sample_loop_def sample_dispatcher_def Socket_of_fd_def sample_client_def)
qed

lemma sample_worker_pops: "background_step sample_os (sample_d1, w) (sample_d2, w)"
proof -
  have "background_step sample_os (sample_d1, w)
      (sample_d1\<lparr>pd_pool := pd_pool sample_d2, pd_completed := [], pd_error_number := 0\<rparr>, w)"
    by (rule background_step.worker [where ev = "Work 0"])
      (auto intro!: pool_step.work simp: workerLoop_step_def waitPop_def set_worker_def sample_dispatcher_def
        sample_d1_def sample_d2_def)
  then show ?thesis by (simp add: sample_dispatcher_def sample_d1_def sample_d2_def)
qed

lemma sample_worker_publishes: "background_step sample_os (sample_d2, w) (el_dispatcher sample_loop3, w)"
proof -
  have "background_step sample_os (sample_d2, w)
      (sample_d2\<lparr>pd_pool := pd_pool (el_dispatcher sample_loop3),
        pd_completed := [processFrame sample_request], pd_error_number := 0\<rparr>, w)"
    by (rule background_step.worker [where ev = "Work 0"])
      (auto intro!: pool_step.work simp: workerLoop_step_def dispatch_exec_def publish_push_def
        set_worker_def sample_dispatcher_def sample_d1_def sample_d2_def sample_loop3_def)
  then show ?thesis by (simp add: sample_dispatcher_def sample_d1_def sample_d2_def sample_loop3_def)
qed

lemma sample_reaches3:
  "server_reaches Little sample_os sample_view sample_sched (Socket_of_fd 7) 1 2 sample_start
     {3, 4, 7} sample_loop3 sample_up2"
proof -
  let ?el1 = "sample_loop1\<lparr>el_dispatcher := sample_d1\<rparr>" and ?el2 = "sample_loop1\<lparr>el_dispatcher := sample_d2\<rparr>"
  have "el_step Little sample_os sample_sched (?el1, sample_up2) (?el2, sample_up2)"
    using el_step.workers [of sample_os ?el1 sample_up2 sample_d2 sample_up2] sample_worker_pops by simp
  moreover have "el_step Little sample_os sample_sched (?el2, sample_up2) (sample_loop3, sample_up2)"
    using el_step.workers [of sample_os ?el2 sample_up2 "el_dispatcher sample_loop3" sample_up2]
      sample_worker_publishes by (simp add: sample_loop3_def)
  ultimately have "(el_step Little sample_os sample_sched)\<^sup>*\<^sup>* (sample_loop1, sample_up1) (sample_loop3, sample_up2)"
    using el_step.event [OF sample_client_handled]
    by (metis (no_types, lifting) converse_rtranclp_into_rtranclp rtranclp.rtrancl_refl)
  then show ?thesis
    using sample_reaches unfolding server_reaches_def by (meson rtranclp_trans)
qed

theorem completed_results_wake_the_loop_witness:
  "pd_completed (el_dispatcher sample_loop3) \<noteq> [] \<and>
   k_interest sample_up2 (pd_notificationFd (el_dispatcher sample_loop3)) = Some EPOLLIN"
proof -
  have c: "pd_completed (el_dispatcher sample_loop3) \<noteq> []" by (simp add: sample_loop3_def)
  show ?thesis using completed_results_wake_the_loop [OF sample_reaches3 c] c by simp
qed

section \<open>How the handlers react\<close>

lemma closeConnection_connections:
  "el_connections (fst (closeConnection os fd el w)) = (el_connections el)(fd := None)"
  by (auto simp: closeConnection_def fun_upd_idem split: option.splits prod.splits)

lemma submit_frames_connections:
  "submit_frames_of sched fd cid ps el w = (ok, el', w') \<Longrightarrow> el_connections el' = el_connections el
     \<and> el_next_connection_id el' = el_next_connection_id el"
proof (induction ps arbitrary: el w)
  case (Cons p ps)
  obtain ok1 el1 w1 where s: "submitFrameForProcessing sched fd cid p el w = (ok1, el1, w1)"
    by (metis prod_cases3)
  then have "el_connections el1 = el_connections el" "el_next_connection_id el1 = el_next_connection_id el"
    by (auto simp: submitFrameForProcessing_def split: prod.splits SubmitStatus.splits)
  with Cons s show ?case by (auto split: if_splits)
qed simp

lemma closeConnection_next: "el_next_connection_id (fst (closeConnection os fd el w)) = el_next_connection_id el"
  by (auto simp: closeConnection_def split: option.splits prod.splits)

lemma handleClientEvent_write_elsewhere:
  assumes "handleClientEvent_write os fd cs c el w = Some (el', w')" and "g \<noteq> fd"
  shows "el_connections el' g = el_connections el g"
proof -
  from assms(1) consider c' v where "closeConnection os fd (put_connection fd cs c' el) v = (el', w')"
    | c' where "el' = put_connection fd cs c' el"
    by (auto simp: handleClientEvent_write_def Let_def split: option.splits prod.splits if_splits)
  then show ?thesis
  proof cases
    case (1 c' v)
    with closeConnection_connections [of os fd "put_connection fd cs c' el" v] assms(2) show ?thesis by simp
  qed (use assms(2) in simp)
qed

text \<open>C15: Connections do not disturb each other. Whatever happens while an event of one client is
  handled, be it malformed input, an overloaded queue or a failing system call, the state
  of every other connection stays as it was.\<close>

theorem client_events_are_isolated:
  assumes "handleClientEvent e os sched fd events el w = Some (el', w')" and "g \<noteq> fd"
  shows "el_connections el' g = el_connections el g"
proof (cases "el_connections el fd")
  case None
  with assms show ?thesis by (simp add: handleClientEvent_def)
next
  case (Some cs)
  have cl: "el_connections el' g = el_connections el2 g" if "closeConnection os fd el2 v = (el', w')" for el2 v
    using closeConnection_connections [of os fd el2 v] that assms(2) by simp
  from assms(1) Some consider (close) "closeConnection os fd el w = (el', w')"
    | (read) "events AND (EPOLLERR OR EPOLLHUP) = 0" "events AND (EPOLLIN OR EPOLLRDHUP) \<noteq> 0"
    | (flushing) "handleClientEvent_write os fd cs (cs_connection cs) el w = Some (el', w')"
    by (auto simp: handleClientEvent_def split: if_splits)
  then show ?thesis
  proof cases
    case close
    then show ?thesis by (rule cl)
  next
    case read
    then obtain r c w1 where rd: "readAvailable e os (cs_connection cs) w = Some (r, c, w1)"
      using assms(1) Some by (auto simp: handleClientEvent_def split: option.splits)
    obtain ok el2 w2 where s:
      "submit_frames_of sched fd (cs_id cs) (cr_frames r) (put_connection fd cs c el) w1 = (ok, el2, w2)"
      by (metis prod_cases3)
    have "el_connections el2 g = el_connections el g" using submit_frames_connections [OF s] assms(2) by simp
    moreover have "closeConnection os fd el2 w2 = (el', w') \<or> handleClientEvent_write os fd cs c el2 w2 = Some (el', w')"
      using assms(1) Some read rd s by (auto simp: handleClientEvent_def split: if_splits)
    ultimately show ?thesis using cl handleClientEvent_write_elsewhere [OF _ assms(2)] by metis
  next
    case flushing
    from handleClientEvent_write_elsewhere [OF this assms(2)] show ?thesis .
  qed
qed

theorem client_events_are_isolated_witness:
  "el_connections (sample_loop1\<lparr>el_dispatcher := sample_d1\<rparr>) 10 = el_connections sample_loop1 10"
proof (rule client_events_are_isolated)
  show "handleClientEvent Little sample_os sample_sched 9 EPOLLIN sample_loop1 sample_up1 =
      Some (sample_loop1\<lparr>el_dispatcher := sample_d1\<rparr>, sample_up2)"
    using sample_client_handled
    by (auto simp: handle_event_def pd_notificationFd_def sample_loop1_def sample_loop_def
        sample_dispatcher_def Socket_of_fd_def)
qed simp

lemma failing_connection_is_closed_facts:
  assumes "server_reaches l os K sched listener n c w0 B el w" and cs: "el_connections el fd = Some cs"
    and h: "handleClientEvent e os sched fd events el w = Some (el', w')"
    and fails: "events AND (EPOLLERR OR EPOLLHUP) \<noteq> 0
      \<or> events AND (EPOLLIN OR EPOLLRDHUP) \<noteq> 0 \<and>
        (\<exists>r d v. readAvailable e os (cs_connection cs) w = Some (r, d, v) \<and>
           (cr_status r \<noteq> cr_ready \<or>
            \<not> fst (submit_frames_of sched fd (cs_id cs) (cr_frames r) (put_connection fd cs d el) v)))"
  shows "el_connections el' fd = None" and "v_interest K w' fd = None" and "fd \<notin> v_open K w'"
proof -
  note inv = server_reaches_inv(1) [OF assms(1)] and k = server_reaches_inv(2) [OF assms(1)]
  have sched: "workers_run os sched" using assms(1) unfolding server_reaches_def by blast
  show gone: "el_connections el' fd = None"
  proof (cases "events AND (EPOLLERR OR EPOLLHUP) = 0")
    case False
    then have "closeConnection os fd el w = (el', w')" using h cs by (simp add: handleClientEvent_def)
    with closeConnection_connections [of os fd el w] show ?thesis by simp
  next
    case True
    with fails obtain r d v where rd: "events AND (EPOLLIN OR EPOLLRDHUP) \<noteq> 0"
      "readAvailable e os (cs_connection cs) w = Some (r, d, v)"
      and bad: "cr_status r \<noteq> cr_ready \<or>
        \<not> fst (submit_frames_of sched fd (cs_id cs) (cr_frames r) (put_connection fd cs d el) v)" by blast
    obtain ok el2 w2 where s:
      "submit_frames_of sched fd (cs_id cs) (cr_frames r) (put_connection fd cs d el) v = (ok, el2, w2)"
      by (metis prod_cases3)
    have "closeConnection os fd el2 w2 = (el', w')"
      using h cs True rd s bad by (cases "cr_status r") (auto simp: handleClientEvent_def split: if_splits)
    with closeConnection_connections [of os fd el2 w2] show ?thesis by simp
  qed
  have "loop_inv K B {} (outstanding (el_dispatcher el')) el' w'" "same_handles el el'"
    using handleClientEvent_inv [OF k sched _ _ h] inv by (auto simp: server_inv_def)
  moreover have "fd \<notin> B" using inv cs by (auto simp: server_inv_def loop_inv_def descriptors_ok_def)
  ultimately show "v_interest K w' fd = None" and "fd \<notin> v_open K w'"
    using gone by (auto simp: loop_inv_def descriptors_ok_def watched_ok_def)
qed

text \<open>C14: A failing connection is closed completely. In a reachable state, when the event reports
  an error or a hang-up, or reading ends with anything but \<open>ready\<close> (the peer closed, the
  frame header announces too much, the socket failed), or the dispatcher refuses one of
  the frames, the connection is removed, its descriptor is closed and epoll no longer
  watches it.\<close>

theorem failing_connection_is_closed:
  assumes "server_reaches l os K sched listener n c w0 B el w" and cs: "el_connections el fd = Some cs"
    and h: "handleClientEvent e os sched fd events el w = Some (el', w')"
    and fails: "events AND (EPOLLERR OR EPOLLHUP) \<noteq> 0
      \<or> events AND (EPOLLIN OR EPOLLRDHUP) \<noteq> 0 \<and>
        (\<exists>r d v. readAvailable e os (cs_connection cs) w = Some (r, d, v) \<and>
           (cr_status r \<noteq> cr_ready \<or>
            \<not> fst (submit_frames_of sched fd (cs_id cs) (cr_frames r) (put_connection fd cs d el) v)))"
  shows "el_connections el' fd = None \<and> v_interest K w' fd = None \<and> fd \<notin> v_open K w'"
  using failing_connection_is_closed_facts [OF assms] by blast

theorem failing_connection_is_closed_witness:
  "\<exists>el' w'. handleClientEvent Little sample_os sample_sched 9 EPOLLHUP sample_loop1 sample_up1 = Some (el', w')
     \<and> el_connections el' 9 = None \<and> k_interest w' 9 = None \<and> 9 \<notin> k_open w'"
proof -
  obtain el' w' where c: "closeConnection sample_os 9 sample_loop1 sample_up1 = (el', w')" by fastforce
  then have h: "handleClientEvent Little sample_os sample_sched 9 EPOLLHUP sample_loop1 sample_up1 = Some (el', w')"
    using sample_live by (simp add: handleClientEvent_def)
  show ?thesis
    using failing_connection_is_closed [OF sample_reaches sample_live h] h by auto
qed

lemma encode_frame_nonempty: "encode_frame p \<noteq> []"
  by (metis length_encode_frame list.size(3) add_is_0 zero_neq_numeral)

lemma server_reaches_epoll:
  assumes "server_reaches e os K sched listener n c w0 B el w"
  shows "epoll_valid (el_epoll el)"
proof -
  from assms obtain spawn el0 w1 where
    m: "make_EventLoop os spawn listener n c w0 = (Inr el0, w1)" "el_valid el0" "sock_fd listener \<in> v_open K w0"
      "v_accepted K w0 = 0" "startup_contract os K"
    and k: "kernel_for os K el0" "workers_run os sched"
    and steps: "(el_step e os sched)\<^sup>*\<^sup>* (el0, w1) (el, w)"
    unfolding server_reaches_def by blast
  have "epoll_valid (el_epoll el0)"
    using m(1) by (rule make_EventLoop_parts) (erule EventLoop_setup_valid [OF _ m(2)], simp_all)
  moreover have "same_handles el0 el"
    using el_steps_inv [OF steps k make_EventLoop_inv [OF m(5,1,2) k(1) m(3,4)]] by simp
  ultimately show ?thesis by (simp add: same_handles_def)
qed

text \<open>The call by which the loop asks to be told when \<open>fd\<close> can be written.\<close>

abbreviation ask_for_output :: "'w os \<Rightarrow> EventLoop \<Rightarrow> fd \<Rightarrow> 'w \<Rightarrow> unit sys_ret \<times> 'w" where
  "ask_for_output os el fd w \<equiv> sys_epoll_ctl os (ep_fd (el_epoll el)) EPOLL_CTL_MOD fd
     (Some \<lparr>ev_events = kClientEvents OR EPOLLOUT, ev_data_fd = fd\<rparr>) w"

lemma updateInterest_pending:
  assumes "epoll_valid (el_epoll el)" and "conn_wf d" and "conn_out d \<noteq> []" and "0 \<le> conn_fd d"
    and "ask_for_output os el (conn_fd d) w = (q, w1)"
  shows "updateInterest os el d w = (case q of Ok _ \<Rightarrow> (True, w1) | Fail _ \<Rightarrow> (False, w1))"
  using assms wantsWrite_iff [OF assms(2)]
  by (auto simp: updateInterest_def epoll_modify_def controlEpoll_def Let_def split: sys_ret.splits)

lemma closed_afterwards:
  assumes k: "kernel_for os K el" and d: "descriptors_ok K B el w"
    and cs: "el_connections el fd = Some cs" and close: "closeConnection os fd el w = (el', w')"
  shows "el_connections el' = (el_connections el)(fd := None) \<and> v_interest K w' fd = None \<and> fd \<notin> v_open K w'"
  using closeConnection_some [OF assms] by simp

lemma handle_result_outcome:
  assumes reach: "server_reaches l os K sched listener n c w0 B el w"
    and h: "handle_result e os r el w = (el', w')"
    and cs: "el_connections el (res_client_fd r) = Some cs" "cs_id cs = res_connection_id r"
    and ask: "ask_for_output os el (res_client_fd r) w = (q, w1)"
  shows "if length (res_response r) \<le> 1048576 \<and> q = Ok () then
      w' = w1 \<and> v_interest K w' (res_client_fd r) = Some (kClientEvents OR EPOLLOUT)
      \<and> (\<exists>cs'. el' = el\<lparr>el_connections := (el_connections el)(res_client_fd r \<mapsto> cs')\<rparr>
           \<and> cs_id cs' = cs_id cs \<and> conn_fd (cs_connection cs') = res_client_fd r
           \<and> conn_in (cs_connection cs') = conn_in (cs_connection cs)
           \<and> conn_out (cs_connection cs') = conn_out (cs_connection cs) @ encode_frame (res_response r))
    else
      el_connections el' = (el_connections el)(res_client_fd r := None)
      \<and> v_interest K w' (res_client_fd r) = None \<and> res_client_fd r \<notin> v_open K w'"
proof -
  let ?fd = "res_client_fd r" and ?c = "cs_connection cs"
  note k = server_reaches_inv(2) [OF reach]
  have inv: "loop_inv K B {} (outstanding (el_dispatcher el)) el w"
    using server_reaches_inv(1) [OF reach] by (simp add: server_inv_def)
  note d = loop_invD(1) [OF inv]
  have wf: "conn_wf ?c" "conn_fd ?c = ?fd" "0 \<le> ?fd"
    using d loop_invD(4) [OF inv] cs(1) by (auto simp: client_ok_def descriptors_ok_def)
  obtain st c' where qf: "queueFrame e (res_response r) ?c = (st, c')" by fastforce
  note post = queueFrame_post [OF wf(1) qf]
  have parts: "conn_fd c' = ?fd" "conn_in c' = conn_in ?c" using post(2) wf(2) by (metis conn_parts)+
  let ?el = "put_connection ?fd cs c' el"
  have el: "el_connections ?el ?fd = Some (cs\<lparr>cs_connection := c'\<rparr>)" "kernel_for os K ?el" using k by simp_all
  have dq: "descriptors_ok K B ?el v" if "v_open K v = v_open K w" for v
    using d cs(1) parts(1) that by (auto simp: descriptors_ok_def)
  have closed: "el_connections el' = (el_connections el)(?fd := None) \<and> v_interest K w' ?fd = None
      \<and> ?fd \<notin> v_open K w'"
    if "closeConnection os ?fd ?el v = (el', w')" "v_open K v = v_open K w" for v
    using closed_afterwards [OF el(2) dq [OF that(2)] el(1) that(1)] by simp
  have fits: "fits_frame (res_response r) \<longleftrightarrow> length (res_response r) \<le> 1048576" by (simp add: fits_frame_def)
  show ?thesis
  proof (cases "length (res_response r) \<le> 1048576")
    case False
    then have "closeConnection os ?fd ?el w = (el', w')"
      using h cs qf post(3) fits by (simp add: handle_result_def put_connection_def Let_def)
    from closed [OF this] False show ?thesis by simp
  next
    case True
    have st: "st = fq_queued" and out: "conn_out c' = conn_out ?c @ encode_frame (res_response r)"
      using post(3,4) True fits by simp_all
    have u: "updateInterest os ?el c' w = (case q of Ok _ \<Rightarrow> (True, w1) | Fail _ \<Rightarrow> (False, w1))"
      using updateInterest_pending [of ?el c' os w q w1] server_reaches_epoll [OF reach] post(1) out parts(1) wf(3) ask
      by (simp add: encode_frame_nonempty)
    note res = handle_result_matching [OF cs qf [unfolded st], of os w, unfolded h]
    show ?thesis
    proof (cases q)
      case (Ok x)
      with res u ask have "el' = ?el" "w' = w1" by auto
      moreover have "v_interest K w1 ?fd = Some (kClientEvents OR EPOLLOUT)"
        using epoll_contractD(2) [OF server_kernelD(4) [OF k]] ask Ok by auto
      ultimately show ?thesis using True Ok parts out by (auto simp: put_connection_def)
    next
      case (Fail en)
      have "closeConnection os ?fd ?el w1 = (el', w')" using res [of False w1] u Fail by simp
      moreover have "v_open K w1 = v_open K w" using epoll_frameD(2) [OF server_kernelD(9) [OF k] ask] by simp
      ultimately show ?thesis using closed Fail by simp
    qed
  qed
qed

text \<open>C16: A result is delivered to the connection it belongs to or dropped. If no connection, or
  one with another id, is registered under the result's descriptor, nothing changes. If the
  id matches, the response fits a frame and epoll accepts the new interest, the connection
  stays, the encoded response is appended to what it still has to send, and it is watched
  for output; if the response is too large or epoll refuses, the connection is removed and
  its descriptor closed. Every other connection stays as it was.\<close>

theorem result_delivered_or_dropped:
  assumes "server_reaches l os K sched listener n c w0 B el w"
    and "handle_result e os r el w = (el', w')"
  shows "((\<nexists>cs. el_connections el (res_client_fd r) = Some cs \<and> cs_id cs = res_connection_id r) \<longrightarrow>
      el' = el \<and> w' = w)
    \<and> (\<forall>g. g \<noteq> res_client_fd r \<longrightarrow> el_connections el' g = el_connections el g)
    \<and> (\<forall>cs q w1. el_connections el (res_client_fd r) = Some cs \<longrightarrow> cs_id cs = res_connection_id r \<longrightarrow>
      ask_for_output os el (res_client_fd r) w = (q, w1) \<longrightarrow>
      (if length (res_response r) \<le> 1048576 \<and> q = Ok () then
         w' = w1 \<and> v_interest K w' (res_client_fd r) = Some (kClientEvents OR EPOLLOUT)
         \<and> (\<exists>cs'. el' = el\<lparr>el_connections := (el_connections el)(res_client_fd r \<mapsto> cs')\<rparr>
              \<and> cs_id cs' = cs_id cs \<and> conn_fd (cs_connection cs') = res_client_fd r
              \<and> conn_in (cs_connection cs') = conn_in (cs_connection cs)
              \<and> conn_out (cs_connection cs') = conn_out (cs_connection cs) @ encode_frame (res_response r))
       else
         el_connections el' = (el_connections el)(res_client_fd r := None)
         \<and> v_interest K w' (res_client_fd r) = None \<and> res_client_fd r \<notin> v_open K w'))"
proof (intro conjI allI impI)
  show drop: "el' = el" "w' = w"
    if "\<nexists>cs. el_connections el (res_client_fd r) = Some cs \<and> cs_id cs = res_connection_id r"
    using assms(2) that by (auto simp: handle_result_def split: option.splits if_splits)
  note outcome = handle_result_outcome [OF assms]
  show "el_connections el' g = el_connections el g" if "g \<noteq> res_client_fd r" for g
  proof (cases "\<exists>cs. el_connections el (res_client_fd r) = Some cs \<and> cs_id cs = res_connection_id r")
    case True
    then obtain cs where cs: "el_connections el (res_client_fd r) = Some cs" "cs_id cs = res_connection_id r"
      by blast
    obtain q w1 where "ask_for_output os el (res_client_fd r) w = (q, w1)" by fastforce
    from outcome [OF cs this] that show ?thesis by (auto split: if_splits)
  qed (use drop in simp)
qed (erule (2) handle_result_outcome [OF assms])

theorem result_delivered_or_dropped_witness:
  "\<exists>el' w' cs'. handle_result Little sample_os \<lparr>res_client_fd = 9, res_connection_id = 1, res_response = ack_payload\<rparr>
       sample_loop1 sample_up1 = (el', w')
     \<and> el_connections el' 9 = Some cs' \<and> conn_out (cs_connection cs') = encode_frame ack_payload
     \<and> k_interest w' 9 = Some (kClientEvents OR EPOLLOUT)"
proof -
  let ?r = "\<lparr>res_client_fd = 9, res_connection_id = 1, res_response = ack_payload\<rparr>"
  obtain el' w' where h: "handle_result Little sample_os ?r sample_loop1 sample_up1 = (el', w')" by fastforce
  obtain w1 where a: "ask_for_output sample_os sample_loop1 9 sample_up1 = (Ok (), w1)"
    by (simp add: sample_os_def sample_up1_def)
  have "conn_out (cs_connection sample_client) = []" "cs_id sample_client = 1"
    by (simp_all add: sample_client_def)
  moreover have "length ack_payload \<le> 1048576" using fits_ack by (simp add: fits_frame_def)
  ultimately show ?thesis
    using result_delivered_or_dropped [OF sample_reaches h] sample_live a h by auto
qed

section \<open>When the server stops\<close>

text \<open>C34: One aborted connection stops the whole server. When the listener becomes readable and
  \<open>accept4\<close> reports that the pending connection was aborted by its peer, \<open>run\<close> returns 1:
  an error of one connection, which \<open>accept(2)\<close> asks applications to treat like \<open>EAGAIN\<close>,
  ends the service for all others.\<close>

theorem aborted_connection_stops_server:
  assumes "el_valid el"
    and "epoll_wait os (el_epoll el) (replicate kMaxEvents \<lparr>ev_events = 0, ev_data_fd = 0\<rparr>) (-1) w =
      Some (\<lparr>epw_event_count = 1, epw_error_number = 0\<rparr>,
            \<lparr>ev_events = EPOLLIN, ev_data_fd = sock_fd (el_listener el)\<rparr> # evs, w1)"
    and "sock_fd (el_listener el) \<noteq> pd_notificationFd (el_dispatcher el)"
    and "sys_accept4 os (sock_fd (el_listener el)) SOCK_NONBLOCK_CLOEXEC w1 = (Fail ECONNABORTED, w2)"
  shows "run e os sched el w = Some (1, el\<lparr>el_error_number := ECONNABORTED\<rparr>, w2)"
proof -
  have "accept_body os (el, w1) = Inr (False, el\<lparr>el_error_number := ECONNABORTED\<rparr>, w2)"
    using assms(4) by (simp add: accept_body_def)
  then have "acceptReadyClients os el w1 = Some (False, el\<lparr>el_error_number := ECONNABORTED\<rparr>, w2)"
    by (simp add: acceptReadyClients_def loop_leave)
  then have "run_body e os sched (el, replicate kMaxEvents \<lparr>ev_events = 0, ev_data_fd = 0\<rparr>, w) =
      Inr (Some (1, el\<lparr>el_error_number := ECONNABORTED\<rparr>, w2))"
    using assms(2,3) by (simp add: run_body_def EpollWaitResult_completed_def handle_event_def)
  from loop_leave [of "run_body e os sched", OF this] assms(1) show ?thesis by (simp add: run_def)
qed

definition aborting_os :: "kernel os" where
  "aborting_os = sample_os\<lparr>sys_accept4 := (\<lambda>fd flags k. (Fail ECONNABORTED, k))\<rparr>"

theorem aborted_connection_stops_server_witness:
  "\<exists>k. run Little aborting_os sample_sched sample_loop
     (sample_up\<lparr>k_ready := [\<lparr>ev_events = EPOLLIN, ev_data_fd = 7\<rparr>]\<rparr>)
     = Some (1, sample_loop\<lparr>el_error_number := ECONNABORTED\<rparr>, k)"
proof -
  let ?ev = "\<lparr>ev_events = EPOLLIN, ev_data_fd = 7\<rparr>"
  let ?evs = "replicate kMaxEvents \<lparr>ev_events = 0, ev_data_fd = 0\<rparr>"
  have "wait_body aborting_os 3 ?evs (-1) (sample_up\<lparr>k_ready := [?ev]\<rparr>) =
      Inr (\<lparr>epw_event_count = 1, epw_error_number = 0\<rparr>, ?ev # tl ?evs, sample_up)"
    by (simp add: wait_body_def aborting_os_def sample_os_def interruptible_def kMaxEvents_def overwrite_def
        sample_up_def sample_start_def sample_world_def drop_Suc)
  then have wt: "epoll_wait aborting_os (el_epoll sample_loop) ?evs (-1) (sample_up\<lparr>k_ready := [?ev]\<rparr>) =
      Some (\<lparr>epw_event_count = 1, epw_error_number = 0\<rparr>,
        \<lparr>ev_events = EPOLLIN, ev_data_fd = sock_fd (el_listener sample_loop)\<rparr> # tl ?evs, sample_up)"
    by (simp add: epoll_wait_def epoll_valid_def kMaxEvents_def sample_loop_def Socket_of_fd_def loop_leave)
  have v: "el_valid sample_loop" "sock_fd (el_listener sample_loop) \<noteq> pd_notificationFd (el_dispatcher sample_loop)"
    by (simp_all add: el_valid_def sample_loop_def Socket_of_fd_def pd_notificationFd_def sample_dispatcher_def)
  have a: "sys_accept4 aborting_os (sock_fd (el_listener sample_loop)) SOCK_NONBLOCK_CLOEXEC sample_up
      = (Fail ECONNABORTED, sample_up)" by (simp add: aborting_os_def)
  show ?thesis using aborted_connection_stops_server [OF v(1) wt v(2) a] by blast
qed

text \<open>System calls that fail set \<open>errno\<close> to a value other than zero.\<close>

definition errno_nonzero :: "'w os \<Rightarrow> bool" where
  "errno_nonzero os \<longleftrightarrow>
     (\<forall>fd flags w en w'. sys_accept4 os fd flags w = (Fail en, w') \<longrightarrow> en \<noteq> 0)
   \<and> (\<forall>fd n t w en w'. sys_epoll_wait os fd n t w = (Fail en, w') \<longrightarrow> en \<noteq> 0)
   \<and> (\<forall>fd w en w'. sys_read_u64 os fd w = (Fail en, w') \<longrightarrow> en \<noteq> 0)"

lemma errno_nonzeroD:
  assumes "errno_nonzero os"
  shows "sys_accept4 os fd flags w \<noteq> (Fail 0, w')" and "sys_epoll_wait os fd n t w \<noteq> (Fail 0, w')"
    and "sys_read_u64 os fd w \<noteq> (Fail 0, w')"
  using assms unfolding errno_nonzero_def by blast+

lemma consume_error:
  assumes "errno_nonzero os" and "consume os x w = Some (r, w')" and "\<not> efr_success r"
  shows "efr_error_number r \<noteq> 0"
proof -
  have "(\<lambda>(r, w'). \<not> efr_success r \<longrightarrow> efr_error_number r \<noteq> 0) (r, w')"
    if "loop (consume_body os (efd_fd x)) w = Some (r, w')"
    using that by (rule loop_rule [where I = "\<lambda>_. True"])
      (auto simp: consume_body_def errno_nonzeroD [OF assms(1)] split: prod.splits sys_ret.splits if_splits)
  with assms(2,3) show ?thesis by (auto simp: consume_def split: if_splits)
qed

lemma acceptReadyClients_error:
  assumes "errno_nonzero os" and "acceptReadyClients os el w = Some (False, el', w')"
  shows "el_error_number el' \<noteq> 0"
proof -
  have "(\<lambda>(b, el', w'). \<not> b \<longrightarrow> el_error_number el' \<noteq> 0) (False, el', w')"
    using assms(2) [unfolded acceptReadyClients_def] by (rule loop_rule [where I = "\<lambda>_. True"])
      (auto simp: accept_body_def errno_nonzeroD [OF assms(1)] split: prod.splits sys_ret.splits if_splits)
  then show ?thesis by simp
qed

lemma handle_event_error:
  assumes os: "errno_nonzero os" and "handle_event e os sched ev el w = Some (False, el', w')"
  shows "el_error_number el' \<noteq> 0"
proof -
  have "el_error_number el' \<noteq> 0" if "handleProcessingResults e os sched el w = Some (False, el', w')"
    using that consume_error [OF os]
    by (auto simp: handleProcessingResults_def pd_consumeNotifications_def split: prod.splits option.splits if_splits)
  with assms(2) acceptReadyClients_error [OF os] show ?thesis
    by (auto simp: handle_event_def Let_def split: if_splits option.splits prod.splits)
qed

lemma handle_events_error:
  "errno_nonzero os \<Longrightarrow> handle_events e os sched evs el w = Some (False, el', w') \<Longrightarrow> el_error_number el' \<noteq> 0"
proof (induction evs arbitrary: el w)
  case (Cons ev evs)
  then obtain go el1 w1 where 1: "handle_event e os sched ev el w = Some (go, el1, w1)"
    by (auto split: option.splits)
  with Cons handle_event_error [OF Cons.prems(1), of e sched ev el w] show ?case by (cases go) auto
qed simp

lemma epoll_wait_error:
  assumes "errno_nonzero os" and "epoll_wait os ep evs t w = Some (r, evs', w')" and "\<not> EpollWaitResult_completed r"
  shows "epw_error_number r \<noteq> 0"
proof -
  have "(\<lambda>(r, evs', w'). \<not> EpollWaitResult_completed r \<longrightarrow> epw_error_number r \<noteq> 0) (r, evs', w')"
    if "loop (wait_body os (ep_fd ep) evs t) w = Some (r, evs', w')"
    using that by (rule loop_rule [where I = "\<lambda>_. True"])
      (auto simp: wait_body_def errno_nonzeroD [OF assms(1)] EpollWaitResult_completed_def
          split: prod.splits sys_ret.splits if_splits)
  with assms(2,3) show ?thesis by (auto simp: epoll_wait_def split: if_splits)
qed

lemma run_returns_failure_facts:
  assumes "errno_nonzero os" and "run e os sched el w = Some (st, el', w')"
  shows "st = 1" and "el_valid el \<Longrightarrow> el_errorNumber el' \<noteq> 0"
    and "(el_step e os sched)\<^sup>*\<^sup>* (el, w) (el', w')"
proof -
  show "st = 1" and "(el_step e os sched)\<^sup>*\<^sup>* (el, w) (el', w')" using run_steps [OF assms(2)] by simp_all
  show "el_errorNumber el' \<noteq> 0" if "el_valid el"
  proof -
    let ?evs = "replicate kMaxEvents \<lparr>ev_events = 0, ev_data_fd = 0\<rparr>"
    let ?Q = "\<lambda>r. \<forall>st el' w'. r = Some (st, el', w') \<longrightarrow> el_error_number el' \<noteq> 0"
    from assms(2) that obtain r where r: "loop (run_body e os sched) (el, ?evs, w) = Some r"
      and rs: "r = Some (st, el', w')" by (auto simp: run_def bind_eq_Some_conv)
    have "?Q r"
      using r by (rule loop_rule [where I = "\<lambda>_. True"])
        (use handle_events_error [OF assms(1)] epoll_wait_error [OF assms(1)] in
          \<open>fastforce simp: run_body_def split: prod.splits option.splits if_splits\<close>)+
    with rs show ?thesis by (simp add: el_errorNumber_def)
  qed
qed

text \<open>C30: \<open>run\<close> returns only to report a failure: whenever it returns, it returns 1; if the loop
  was valid, \<open>errorNumber\<close> is then not zero, and the loop was reached by its regular steps,
  so that the invariants above still hold.\<close>

theorem run_returns_failure:
  assumes "errno_nonzero os" and "run e os sched el w = Some (st, el', w')"
  shows "st = 1 \<and> (el_valid el \<longrightarrow> el_errorNumber el' \<noteq> 0) \<and> (el_step e os sched)\<^sup>*\<^sup>* (el, w) (el', w')"
  using run_returns_failure_facts [OF assms] by blast

lemma sample_errno: "errno_nonzero sample_os"
  by (auto simp: errno_nonzero_def sample_os_def interruptible_def split: if_splits list.splits)

theorem run_returns_failure_witness:
  "\<exists>st el' w'. run Little sample_os sample_sched (sample_loop\<lparr>el_epoll := \<lparr>ep_fd = -1\<rparr>\<rparr>) sample_up = Some (st, el', w')
     \<and> st = 1 \<and> el_errorNumber el' \<noteq> 0"
proof -
  let ?el = "sample_loop\<lparr>el_epoll := \<lparr>ep_fd = -1\<rparr>\<rparr>"
  have "run_body Little sample_os sample_sched (?el, replicate kMaxEvents \<lparr>ev_events = 0, ev_data_fd = 0\<rparr>, sample_up)
      = Inr (Some (1, ?el\<lparr>el_error_number := EBADF\<rparr>, sample_up))"
    by (simp add: run_body_def epoll_wait_def epoll_valid_def EpollWaitResult_completed_def)
  from loop_leave [of "run_body Little sample_os sample_sched", OF this]
  have r: "run Little sample_os sample_sched ?el sample_up = Some (1, ?el\<lparr>el_error_number := EBADF\<rparr>, sample_up)"
    by (simp add: run_def el_valid_def sample_loop_def)
  have "el_valid ?el" by (simp add: el_valid_def sample_loop_def)
  with run_returns_failure [OF sample_errno r] r show ?thesis by blast
qed

section \<open>Handlers return\<close>

text \<open>
  The backlog of the listener is finite: a measure goes down whenever \<open>accept4\<close> returns a
  connection or is interrupted, and registering or closing a connection does not raise it.
\<close>

definition accept_ends :: "'w os \<Rightarrow> ('w \<Rightarrow> nat) \<Rightarrow> bool" where
  "accept_ends os m \<longleftrightarrow>
     (\<forall>fd flags w c w'. sys_accept4 os fd flags w = (Ok c, w') \<longrightarrow> m w' < m w)
   \<and> (\<forall>fd flags w w'. sys_accept4 os fd flags w = (Fail EINTR, w') \<longrightarrow> m w' < m w)
   \<and> (\<forall>epfd op fd ev w r w'. sys_epoll_ctl os epfd op fd ev w = (r, w') \<longrightarrow> m w' \<le> m w)
   \<and> (\<forall>fd w. m (sys_close os fd w) \<le> m w)"

lemma accept_endsD:
  assumes "accept_ends os m"
  shows "sys_accept4 os fd flags w = (Ok c, w') \<Longrightarrow> m w' < m w"
    and "sys_accept4 os fd flags w = (Fail EINTR, w') \<Longrightarrow> m w' < m w"
    and "sys_epoll_ctl os epfd op fd ev w = (r, w') \<Longrightarrow> m w' \<le> m w"
    and "m (sys_close os fd w) \<le> m w"
  using assms unfolding accept_ends_def by blast+

lemma register_client_measure:
  assumes "accept_ends os m" and "register_client os c el w = (el', w')"
  shows "m w' \<le> m w"
proof -
  have dest: "m (socket_destroy os s v) \<le> m v" for s v
    using accept_endsD(4) [OF assms(1)] by (simp add: socket_defs)
  obtain r w1 where add: "epoll_add os (el_epoll el) c kClientEvents w = (r, w1)" by fastforce
  then have "m w1 \<le> m w"
    by (auto simp: epoll_add_def controlEpoll_def Let_def dest: accept_endsD(3) [OF assms(1)]
        split: if_splits prod.splits sys_ret.splits)
  moreover have "w' = socket_destroy os (Socket_of_fd c) w \<or> w' = w1 \<or> (\<exists>s. w' = socket_destroy os s w1)"
    using assms(2) add by (auto simp: register_client_def conn_destroy_def Let_def split: if_splits)
  ultimately show ?thesis using dest le_trans by blast
qed

lemma acceptReadyClients_returns:
  assumes "accept_ends os m"
  shows "\<exists>q. acceptReadyClients os el w = Some q"
  unfolding acceptReadyClients_def
proof (rule loop_terminates [where I = "\<lambda>_. True" and R = "measure (\<lambda>(el, w). m w)"])
  fix s s' assume b: "accept_body os s = Inl s'"
  obtain el1 w1 where s: "s = (el1, w1)" by (cases s)
  obtain q w2 where a: "sys_accept4 os (listener_fd el1) SOCK_NONBLOCK_CLOEXEC w1 = (q, w2)" by fastforce
  have "m (snd s') < m w1"
  proof (cases q)
    case (Ok c)
    then have "s' = register_client os c el1 w2" using b s a by (simp add: accept_body_def)
    with register_client_measure [OF assms, of c el1 w2] accept_endsD(1) [OF assms] a Ok show ?thesis
      by (metis le_less_trans prod.collapse)
  next
    case (Fail en)
    then have "en = EINTR" "s' = (el1, w2)" using b s a by (auto simp: accept_body_def split: if_splits)
    with accept_endsD(2) [OF assms] a Fail show ?thesis by simp
  qed
  then show "True \<and> (s', s) \<in> measure (\<lambda>(el, w). m w)" using s by (simp add: case_prod_unfold)
qed simp_all

lemma handleClientEvent_write_returns:
  assumes "send_contract os out" and "send_interrupts_end os m"
  shows "\<exists>q. handleClientEvent_write os fd cs c el w = Some q"
  using flushWrites_returns [OF assms, of c w]
  by (auto simp: handleClientEvent_write_def Let_def split: option.splits prod.splits)

text \<open>C13: No handler blocks the event loop for ever. When signals interrupt system calls finitely
  often, the backlog of the listener is finite and every socket has finitely much data
  available, then every event, whatever its descriptor and flags and however the workers
  are scheduled, is handled in finitely many steps.\<close>

theorem event_handlers_return:
  assumes "send_contract os out" and "send_interrupts_end os ms"
    and "\<And>fd. recv_drains os fd (mr fd)" and "\<And>fd. eventfd_interrupts_end os fd me"
    and "accept_ends os ma"
  shows "\<exists>go_on el' w'. handle_event e os sched ev el w = Some (go_on, el', w')"
proof -
  have client: "\<exists>q. handleClientEvent e os sched fd events el w = Some q" for fd events
  proof (cases "el_connections el fd")
    case (Some cs)
    obtain r c w1 where rd: "readAvailable e os (cs_connection cs) w = Some (r, c, w1)"
      using readAvailable_returns [OF assms(3)] by blast
    obtain ok el2 w2 where
      "submit_frames_of sched fd (cs_id cs) (cr_frames r) (put_connection fd cs c el) w1 = (ok, el2, w2)"
      by (metis prod_cases3)
    with Some rd handleClientEvent_write_returns [OF assms(1,2)] show ?thesis
      by (simp add: handleClientEvent_def)
  qed (simp add: handleClientEvent_def)
  have results: "\<exists>q. handleProcessingResults e os sched el w = Some q"
  proof -
    obtain d w1 where s: "sched (el_dispatcher el, w) = (d, w1)" by fastforce
    obtain r w2 where "pd_consumeNotifications os d w1 = Some (r, w2)"
      using consume_returns [OF assms(4)] by (metis pd_consumeNotifications_def)
    with s show ?thesis
      by (cases "sched (d, w2)") (auto simp: handleProcessingResults_def pd_takeCompleted_eq)
  qed
  obtain b el1 w1 where "acceptReadyClients os el w = Some (b, el1, w1)"
    using acceptReadyClients_returns [OF assms(5)] by (metis prod_cases3)
  with client [of "ev_data_fd ev" "ev_events ev"] results show ?thesis
    by (auto simp: handle_event_def Let_def)
qed

theorem event_handlers_return_witness:
  "\<exists>go_on el' w'. handle_event Little sample_os sample_sched \<lparr>ev_events = EPOLLIN OR EPOLLOUT, ev_data_fd = 9\<rparr>
     sample_loop1 sample_up1 = Some (go_on, el', w')"
proof (rule event_handlers_return [OF sample_send_contract sample_send_interrupts sample_recv_drains
      sample_eventfd_interrupts])
  show "accept_ends sample_os (\<lambda>k. length (k_backlog k))"
    by (auto simp: accept_ends_def sample_os_def split: if_splits list.splits option.splits epoll_op.splits)
qed

end
