(* ===== verification/Frame_Io.thy ===== *)
theory Frame_Io
  imports Wire_Format Socket_Io
begin

text \<open>
  Blocking exchange of whole frames: \<open>include/netpulse/protocol/frame.hpp\<close> and
  \<open>src/protocol/frame.cpp\<close>, used by the device simulator. The lemmas show that
  \<open>sendFrame\<close> transmits exactly the encoding of the payload, that \<open>receiveFrame\<close> consumes
  exactly one frame from the stream, and that the two are inverse to each other also
  between hosts of different byte order.
\<close>

section \<open>Results\<close>

datatype FrameStatus =
  frame_completed | frame_peer_closed | frame_would_block | frame_payload_too_large | frame_io_error

record SendFrameResult =
  sf_status :: FrameStatus
  sf_bytes_transferred :: nat
  sf_error_number :: errno

record ReceiveFrameResult =
  rf_status :: FrameStatus
  rf_payload :: bytes
  rf_bytes_transferred :: nat
  rf_error_number :: errno

definition SendFrameResult_completed :: "SendFrameResult \<Rightarrow> bool" where
  "SendFrameResult_completed r \<longleftrightarrow> sf_status r = frame_completed"

definition ReceiveFrameResult_completed :: "ReceiveFrameResult \<Rightarrow> bool" where
  "ReceiveFrameResult_completed r \<longleftrightarrow> rf_status r = frame_completed"

fun toFrameStatus :: "IoStatus \<Rightarrow> FrameStatus" where
  "toFrameStatus io_completed = frame_completed"
| "toFrameStatus io_peer_closed = frame_peer_closed"
| "toFrameStatus io_would_block = frame_would_block"
| "toFrameStatus io_error = frame_io_error"

section \<open>sendFrame and receiveFrame\<close>

definition sendFrame ::
  "endian \<Rightarrow> 'w os \<Rightarrow> fd \<Rightarrow> bytes \<Rightarrow> 'w \<Rightarrow> (SendFrameResult \<times> 'w) option" where
  "sendFrame e os fd payload w =
     (if unat max_payload_size < length payload then
        Some (\<lparr>sf_status = frame_payload_too_large, sf_bytes_transferred = 0,
               sf_error_number = 0\<rparr>, w)
      else
        let payload_size = (of_nat (length payload) :: u32);
            network_size = htonl e payload_size;
            header = bytes_of_u32 e network_size
        in case sendAll os fd header w of
             None \<Rightarrow> None
           | Some (header_result, w1) \<Rightarrow>
               if \<not> IoResult_completed header_result then
                 Some (\<lparr>sf_status = toFrameStatus (io_status header_result),
                        sf_bytes_transferred = io_bytes_transferred header_result,
                        sf_error_number = io_error_number header_result\<rparr>, w1)
               else
                 (case sendAll os fd payload w1 of
                    None \<Rightarrow> None
                  | Some (payload_result, w2) \<Rightarrow>
                      Some (\<lparr>sf_status = toFrameStatus (io_status payload_result),
                             sf_bytes_transferred = io_bytes_transferred header_result
                               + io_bytes_transferred payload_result,
                             sf_error_number = io_error_number payload_result\<rparr>, w2)))"

definition receiveFrame ::
  "endian \<Rightarrow> 'w os \<Rightarrow> fd \<Rightarrow> 'w \<Rightarrow> (ReceiveFrameResult \<times> 'w) option" where
  "receiveFrame e os fd w =
     (case receiveExact os fd (replicate 4 0) w of
        None \<Rightarrow> None
      | Some (header_result, header, w1) \<Rightarrow>
          if \<not> IoResult_completed header_result then
            Some (\<lparr>rf_status = toFrameStatus (io_status header_result), rf_payload = [],
                   rf_bytes_transferred = io_bytes_transferred header_result,
                   rf_error_number = io_error_number header_result\<rparr>, w1)
          else
            let network_size = u32_of_bytes e header;
                payload_size = ntohl e network_size
            in if max_payload_size < payload_size then
                 Some (\<lparr>rf_status = frame_payload_too_large, rf_payload = [],
                        rf_bytes_transferred = length header, rf_error_number = 0\<rparr>, w1)
               else
                 (case receiveExact os fd (replicate (unat payload_size) 0) w1 of
                    None \<Rightarrow> None
                  | Some (payload_result, payload, w2) \<Rightarrow>
                      Some (\<lparr>rf_status = toFrameStatus (io_status payload_result),
                             rf_payload = payload,
                             rf_bytes_transferred = io_bytes_transferred header_result
                               + io_bytes_transferred payload_result,
                             rf_error_number = io_error_number payload_result\<rparr>, w2)))"

section \<open>What sendFrame transmits\<close>

lemma toFrameStatus_completed [simp]: "toFrameStatus s = frame_completed \<longleftrightarrow> s = io_completed"
  by (cases s) simp_all

lemma toFrameStatus_not_too_large [simp]: "toFrameStatus s \<noteq> frame_payload_too_large"
  by (cases s) simp_all

lemma sendFrame_returns:
  assumes "send_contract os out" and "send_interrupts_end os m"
  shows "\<exists>r w'. sendFrame e os fd p w = Some (r, w')"
proof -
  obtain r1 w1 where 1: "sendAll os fd (be_bytes (of_nat (length p))) w = Some (r1, w1)"
    using sendAll_returns [OF assms(2,1)] by blast
  obtain r2 w2 where 2: "sendAll os fd p w1 = Some (r2, w2)"
    using sendAll_returns [OF assms(2,1)] by blast
  from 1 2 show ?thesis by (simp add: sendFrame_def Let_def)
qed

lemma sendFrame_too_large:
  "\<not> fits_frame p \<Longrightarrow> sendFrame e os fd p w =
     Some (\<lparr>sf_status = frame_payload_too_large, sf_bytes_transferred = 0, sf_error_number = 0\<rparr>, w)"
  by (simp add: sendFrame_def fits_frame_def)

lemma sendFrame_prefix:
  assumes os: "send_contract os out" and fits: "fits_frame p"
    and ret: "sendFrame e os fd p w = Some (r, w')"
  shows "sent_prefix out fd (encode_frame p) w (sf_bytes_transferred r) w'
    \<and> (sf_status r = frame_completed \<longleftrightarrow> sf_bytes_transferred r = length (encode_frame p))"
proof -
  let ?h = "be_bytes (of_nat (length p))"
  from fits ret obtain hr w1 where h: "sendAll os fd ?h w = Some (hr, w1)"
    by (auto simp: sendFrame_def fits_frame_def Let_def split: option.splits)
  note hp = sendAll_post [OF os h]
  show ?thesis
  proof (cases "io_status hr = io_completed")
    case False
    with fits ret h have r: "sf_bytes_transferred r = io_bytes_transferred hr"
      "sf_status r \<noteq> frame_completed" and w: "w' = w1"
      by (auto simp: sendFrame_def fits_frame_def Let_def IoResult_completed_def)
    have "io_bytes_transferred hr \<le> 4" using hp by (simp add: sent_prefix_def)
    then show ?thesis
      using hp False r w by (simp add: sent_prefix_def encode_frame_def)
  next
    case True
    with hp have 4: "io_bytes_transferred hr = 4" by simp
    from fits ret h True obtain pr where pl: "sendAll os fd p w1 = Some (pr, w')"
      and r: "sf_bytes_transferred r = 4 + io_bytes_transferred pr"
      "sf_status r = toFrameStatus (io_status pr)"
      using 4 by (auto simp: sendFrame_def fits_frame_def Let_def IoResult_completed_def
          split: option.splits)
    from sendAll_post [OF os pl] hp 4 r show ?thesis
      by (auto simp: sent_prefix_def encode_frame_def)
  qed
qed

section \<open>What receiveFrame consumes\<close>

text \<open>Sending keeps every observation that \<open>send\<close> keeps, receiving those that \<open>recv\<close> keeps.\<close>

lemma sendAll_frame:
  assumes "\<And>data flags v. f (snd (sys_send os fd data flags v)) = f v" and "sendAll os fd data w = Some (r, w')"
  shows "f w' = f w"
proof -
  have step: "f v' = f v" if "sys_send os fd data flags v = (q, v')" for data flags v q v'
    using assms(1) [of data flags v] that by simp
  have "(\<lambda>(r, v). f v = f w) (r, w')"
    using assms(2) [unfolded sendAll_def] by (rule loop_rule [where I = "\<lambda>(k, v). f v = f w"])
      (auto simp: sendAll_body_def dest: step split: prod.splits sys_ret.splits if_splits)
  then show ?thesis by simp
qed

lemma receiveExact_frame:
  assumes "\<And>k flags v. f (snd (sys_recv os fd k flags v)) = f v" and "receiveExact os fd b w = Some (r, b', w')"
  shows "f w' = f w"
proof -
  have step: "f v' = f v" if "sys_recv os fd k flags v = (q, v')" for k flags v q v'
    using assms(1) [of k flags v] that by simp
  have "(\<lambda>(r, b, v). f v = f w) (r, b', w')"
    using assms(2) [unfolded receiveExact_def] by (rule loop_rule [where I = "\<lambda>(k, b, v). f v = f w"])
      (auto simp: receiveExact_body_def dest: step split: prod.splits sys_ret.splits if_splits)
  then show ?thesis by simp
qed

lemma sendFrame_frame:
  assumes "\<And>data flags v. f (snd (sys_send os fd data flags v)) = f v" and "sendFrame e os fd p w = Some (r, w')"
  shows "f w' = f w"
  using assms(2) sendAll_frame [of f os fd, OF assms(1)]
  by (auto simp: sendFrame_def Let_def split: if_splits option.splits)

lemma receiveFrame_frame:
  assumes "\<And>k flags v. f (snd (sys_recv os fd k flags v)) = f v" and "receiveFrame e os fd w = Some (r, w')"
  shows "f w' = f w"
  using assms(2) receiveExact_frame [of f os fd, OF assms(1)]
  by (auto simp: receiveFrame_def Let_def split: if_splits option.splits)

lemma receiveExact_fresh:
  assumes os: "recv_contract os inp" and ret: "receiveExact os fd (replicate n 0) w = Some (r, b, w')"
  shows "length b = n" and "io_bytes_transferred r \<le> n"
    and "inp fd w' = inp fd w @ take (io_bytes_transferred r) b"
    and "io_status r = io_completed \<longleftrightarrow> io_bytes_transferred r = n"
  using receiveExact_post [OF os ret] by (auto simp: filled_prefix_def)

lemma receiveFrame_returns:
  assumes "recv_contract os inp" and "recv_interrupts_end os m"
  shows "\<exists>r w'. receiveFrame e os fd w = Some (r, w')"
proof -
  obtain r1 h w1 where 1: "receiveExact os fd (replicate 4 0) w = Some (r1, h, w1)"
    using receiveExact_returns [OF assms(2,1)] by blast
  obtain r2 p w2 where 2:
    "receiveExact os fd (replicate (unat (ntohl e (u32_of_bytes e h))) 0) w1 = Some (r2, p, w2)"
    using receiveExact_returns [OF assms(2,1)] by blast
  from 1 2 show ?thesis by (simp add: receiveFrame_def Let_def)
qed

text \<open>
  Whatever the outcome, \<open>bytes_transferred\<close> counts the bytes taken from the stream, and
  these bytes are a prefix of the frame that was announced.
\<close>

lemma receiveFrame_post:
  assumes os: "recv_contract os inp" and ret: "receiveFrame e os fd w = Some (r, w')"
  shows "\<exists>bs. inp fd w' = inp fd w @ bs \<and> length bs = rf_bytes_transferred r
    \<and> (rf_status r = frame_completed \<longrightarrow> bs = encode_frame (rf_payload r) \<and> fits_frame (rf_payload r))
    \<and> (rf_status r \<noteq> frame_completed \<and> rf_status r \<noteq> frame_payload_too_large \<longrightarrow>
         next_frame bs = Incomplete)
    \<and> (rf_status r = frame_payload_too_large \<longrightarrow> next_frame bs = Oversized \<and> rf_payload r = [])"
proof -
  from ret obtain hr h w1 where h: "receiveExact os fd (replicate 4 0) w = Some (hr, h, w1)"
    by (auto simp: receiveFrame_def split: option.splits)
  note hp = receiveExact_fresh [OF os h]
  let ?n = "be_word h"
  show ?thesis
  proof (cases "io_status hr = io_completed")
    case False
    then have "r = \<lparr>rf_status = toFrameStatus (io_status hr), rf_payload = [],
        rf_bytes_transferred = io_bytes_transferred hr, rf_error_number = io_error_number hr\<rparr>"
      and "w' = w1" using ret h by (simp_all add: receiveFrame_def IoResult_completed_def)
    then show ?thesis
      using hp False by (intro exI [of _ "take (io_bytes_transferred hr) h"])
        (auto simp: next_frame_def)
  next
    case True
    then have h4: "inp fd w1 = inp fd w @ h" "io_bytes_transferred hr = 4" using hp by simp_all
    show ?thesis
    proof (cases "max_payload_size < ?n")
      case large: True
      then have "r = \<lparr>rf_status = frame_payload_too_large, rf_payload = [],
          rf_bytes_transferred = length h, rf_error_number = 0\<rparr>" and "w' = w1"
        using ret h True hp(1) by (simp_all add: receiveFrame_def IoResult_completed_def Let_def)
      then show ?thesis
        using h4 hp(1) large by (intro exI [of _ h]) (auto simp: next_frame_def)
    next
      case small: False
      then obtain pr p where p: "receiveExact os fd (replicate (unat ?n) 0) w1 = Some (pr, p, w')"
        and r: "r = \<lparr>rf_status = toFrameStatus (io_status pr), rf_payload = p,
          rf_bytes_transferred = 4 + io_bytes_transferred pr, rf_error_number = io_error_number pr\<rparr>"
        using ret h True hp(1) h4
        by (auto simp: receiveFrame_def IoResult_completed_def Let_def split: option.splits)
      note pp = receiveExact_fresh [OF os p]
      have enc: "encode_frame p = h @ p"
        using pp(1) hp(1) by (simp add: encode_frame_def be_bytes_be_word)
      have "fits_frame p" using small pp(1) by (simp add: fits_frame_def word_less_nat_alt)
      then show ?thesis
        using pp h4 r hp(1) enc small
        by (intro exI [of _ "h @ take (io_bytes_transferred pr) p"]) (auto simp: next_frame_def)
    qed
  qed
qed

section \<open>Properties\<close>

text \<open>C22: \<open>sendFrame\<close> returns. A payload above the limit is refused without touching the
  socket; otherwise what goes out is a prefix of the frame's encoding, of length
  \<open>bytes_transferred\<close>, and the status is \<open>completed\<close> exactly when the whole frame went
  out. This holds on hosts of either byte order.\<close>

theorem sendFrame_transmits_encoding:
  assumes "send_contract os out" and "send_interrupts_end os m"
  shows "\<exists>r w'. sendFrame e os fd p w = Some (r, w')
    \<and> (if length p \<le> 1048576
       then out fd w' = out fd w @ take (sf_bytes_transferred r) (encode_frame p)
         \<and> sf_bytes_transferred r \<le> 4 + length p
         \<and> (SendFrameResult_completed r \<longleftrightarrow> sf_bytes_transferred r = 4 + length p)
       else sf_status r = frame_payload_too_large \<and> sf_bytes_transferred r = 0 \<and> w' = w)"
proof -
  obtain r w' where ret: "sendFrame e os fd p w = Some (r, w')"
    using sendFrame_returns [OF assms] by blast
  show ?thesis
  proof (cases "fits_frame p")
    case True
    from sendFrame_prefix [OF assms(1) this ret] ret True show ?thesis
      by (auto simp: fits_frame_def sent_prefix_def SendFrameResult_completed_def)
  next
    case False
    with ret sendFrame_too_large [OF False, of e os fd w] show ?thesis
      by (auto simp: fits_frame_def)
  qed
qed

theorem sendFrame_transmits_encoding_witness:
  "send_contract sample_os sample_out \<and> send_interrupts_end sample_os k_intr \<and>
   (\<exists>r w'. sendFrame Little sample_os 7 [65, 67] sample_world = Some (r, w')
    \<and> sample_out 7 w' = take (sf_bytes_transferred r) [0, 0, 0, 2, 65, 67])"
  using sendFrame_transmits_encoding [OF sample_send_contract sample_send_interrupts,
      of Little 7 "[65, 67]" sample_world] sample_contracts
  by (auto simp: sample_world_def encode_frame_def be_bytes_def)

text \<open>C23: \<open>receiveFrame\<close> returns and consumes exactly \<open>bytes_transferred\<close> bytes of the stream.
  If it completes, these bytes are the encoding of the payload it returns, which is
  within the limit; \<open>payload_too_large\<close> means they announce a payload above the limit and
  the payload is not read; every other status means they are an incomplete frame.\<close>

theorem receiveFrame_consumes_one_frame:
  assumes "recv_contract os inp" and "recv_interrupts_end os m"
  shows "\<exists>r w' bs. receiveFrame e os fd w = Some (r, w') \<and> inp fd w' = inp fd w @ bs
    \<and> length bs = rf_bytes_transferred r
    \<and> (case rf_status r of
         frame_completed \<Rightarrow> bs = encode_frame (rf_payload r) \<and> length (rf_payload r) \<le> 1048576
       | frame_payload_too_large \<Rightarrow> next_frame bs = Oversized \<and> rf_payload r = []
       | _ \<Rightarrow> next_frame bs = Incomplete)"
proof -
  obtain r w' where ret: "receiveFrame e os fd w = Some (r, w')"
    using receiveFrame_returns [OF assms] by blast
  from receiveFrame_post [OF assms(1) ret] ret show ?thesis
    by (cases "rf_status r") (auto simp: fits_frame_def)
qed

theorem receiveFrame_consumes_one_frame_witness:
  "recv_contract sample_os sample_in \<and> recv_interrupts_end sample_os k_intr \<and>
   (\<exists>r w' bs. receiveFrame Big sample_os 7 (sample_world\<lparr>k_avail := (\<lambda>_. [0, 0, 0, 1, 65])\<rparr>) = Some (r, w')
     \<and> sample_in 7 w' = bs \<and> length bs = rf_bytes_transferred r)"
  using receiveFrame_consumes_one_frame [OF sample_recv_contract sample_recv_interrupts,
      of Big 7 "sample_world\<lparr>k_avail := (\<lambda>_. [0, 0, 0, 1, 65])\<rparr>"] sample_contracts
  by (auto simp: sample_world_def)

text \<open>C21: A frame sent by \<open>sendFrame\<close> on a host of one byte order and read by
  \<open>receiveFrame\<close> on a host of the same or the other byte order arrives with the same
  payload: if the sender completed, and what the receiver consumed when it completed is
  the beginning of what the sender put out (plus anything sent later), then the payload
  received is the payload sent.\<close>

theorem frame_roundtrip_between_hosts:
  assumes "send_contract os1 out" and "recv_contract os2 inp"
    and "length p \<le> 1048576"
    and "sendFrame e1 os1 fd1 p w1 = Some (sr, w1')" and "SendFrameResult_completed sr"
    and "receiveFrame e2 os2 fd2 w2 = Some (rr, w2')" and "ReceiveFrameResult_completed rr"
    and "out fd1 w1' = out fd1 w1 @ sent" and "inp fd2 w2' = inp fd2 w2 @ received"
    and "sent @ later = received @ unread"
  shows "rf_payload rr = p"
proof -
  have fits: "fits_frame p" using assms(3) by (simp add: fits_frame_def)
  from sendFrame_prefix [OF assms(1) fits assms(4)] assms(5,8) have "sent = encode_frame p"
    by (simp add: sent_prefix_def SendFrameResult_completed_def)
  moreover from receiveFrame_post [OF assms(2,6)] assms(7,9)
  have "received = encode_frame (rf_payload rr)" "fits_frame (rf_payload rr)"
    by (auto simp: ReceiveFrameResult_completed_def)
  ultimately have eq: "encode_frame p @ later = encode_frame (rf_payload rr) @ unread"
    and fits': "fits_frame (rf_payload rr)" using assms(10) by simp_all
  have "Frame p later = next_frame (encode_frame p @ later)" using wire.nxt_enc [OF fits] ..
  also have "\<dots> = next_frame (encode_frame (rf_payload rr) @ unread)" by (simp only: eq)
  also have "\<dots> = Frame (rf_payload rr) unread" using fits' by (rule wire.nxt_enc)
  finally show ?thesis by simp
qed

theorem frame_roundtrip_between_hosts_witness:
  "rf_payload \<lparr>rf_status = frame_completed, rf_payload = [65], rf_bytes_transferred = 5,
     rf_error_number = 0\<rparr> = [65]"
proof -
  let ?w1 = sample_world and ?w2 = "sample_world\<lparr>k_avail := (\<lambda>_. encode_frame [65] @ [2])\<rparr>"
  let ?h = "be_bytes 1"
  let ?w1' = "?w1\<lparr>k_out := (k_out ?w1)(7 := encode_frame [65])\<rparr>"
  have 1: "sendAll bulk_os 7 ?h ?w1 = Some (\<lparr>io_status = io_completed, io_bytes_transferred = 4,
      io_error_number = 0\<rparr>, ?w1\<lparr>k_out := (k_out ?w1)(7 := ?h)\<rparr>)"
    using sendAll_at_once [of bulk_os 7 ?h ?w1] by (simp add: bulk_os_def sample_world_def be_bytes_def)
  have 2: "sendAll bulk_os 7 [65] (?w1\<lparr>k_out := (k_out ?w1)(7 := ?h)\<rparr>) = Some (\<lparr>io_status = io_completed,
      io_bytes_transferred = 1, io_error_number = 0\<rparr>, ?w1')"
    using sendAll_at_once [of bulk_os 7 "[65]" "?w1\<lparr>k_out := (k_out ?w1)(7 := ?h)\<rparr>"]
    by (simp add: bulk_os_def sample_world_def encode_frame_def)
  have send: "sendFrame Little bulk_os 7 [65] ?w1 = Some (\<lparr>sf_status = frame_completed,
      sf_bytes_transferred = 5, sf_error_number = 0\<rparr>, ?w1')"
    by (simp add: sendFrame_def Let_def 1 2 IoResult_completed_def)
  let ?v = "?w2\<lparr>k_in := (k_in ?w2)(8 := ?h), k_avail := (k_avail ?w2)(8 := [65, 2])\<rparr>"
  let ?w2' = "?w2\<lparr>k_in := (k_in ?w2)(8 := encode_frame [65]), k_avail := (k_avail ?w2)(8 := [2])\<rparr>"
  have enc: "encode_frame [65] = ?h @ [65]" by (simp add: encode_frame_def)
  have 3: "receiveExact bulk_os 8 (replicate 4 0) ?w2 = Some (\<lparr>io_status = io_completed,
      io_bytes_transferred = 4, io_error_number = 0\<rparr>, ?h, ?v)"
    using receiveExact_at_once [of bulk_os 8 "replicate 4 0" ?w2 ?h ?v]
    by (simp add: bulk_os_def sample_world_def enc)
  have 4: "receiveExact bulk_os 8 [0] ?v = Some (\<lparr>io_status = io_completed,
      io_bytes_transferred = 1, io_error_number = 0\<rparr>, [65], ?w2')"
    using receiveExact_at_once [of bulk_os 8 "[0]" ?v "[65]" ?w2']
    by (simp add: bulk_os_def sample_world_def enc)
  have recv: "receiveFrame Big bulk_os 8 ?w2 = Some (\<lparr>rf_status = frame_completed, rf_payload = [65],
      rf_bytes_transferred = 5, rf_error_number = 0\<rparr>, ?w2')"
    using 4 by (simp add: receiveFrame_def Let_def 3 IoResult_completed_def max_payload_size_def)
  show ?thesis
    by (rule frame_roundtrip_between_hosts [OF bulk_contracts _ send _ recv,
          where sent = "encode_frame [65]" and received = "encode_frame [65]" and later = "[2]" and unread = "[2]"])
      (simp_all add: sample_world_def SendFrameResult_completed_def ReceiveFrameResult_completed_def)
qed

end
