(* ===== verification/Applications.thy ===== *)
theory Applications
  imports Event_Loop_Properties Frame_Io
begin

text \<open>
  The two programs: the server (\<open>apps/server/main.cpp\<close>) and the device simulator
  (\<open>tools/device_simulator/main.cpp\<close>). Their output is left out. The calls that create and
  address sockets are parameters, as the other system calls are.
\<close>

section \<open>Addresses and the calls on them\<close>

type_synonym u16 = "16 word"

definition htons :: "endian \<Rightarrow> u16 \<Rightarrow> u16" where
  "htons e n = (case e of Big \<Rightarrow> n | Little \<Rightarrow> push_bit 8 n OR drop_bit 8 n)"

record sockaddr_in =
  sin_family :: int
  sin_port :: u16
  sin_addr :: u32

text \<open>\<open>inet_pton\<close> yields the address, or nothing when it does not return 1.\<close>

record 'w net =
  net_socket :: "int \<Rightarrow> int \<Rightarrow> int \<Rightarrow> 'w \<Rightarrow> fd sys_ret \<times> 'w"
  net_setsockopt_reuseaddr :: "fd \<Rightarrow> int \<Rightarrow> 'w \<Rightarrow> unit sys_ret \<times> 'w"
  net_bind :: "fd \<Rightarrow> sockaddr_in \<Rightarrow> 'w \<Rightarrow> unit sys_ret \<times> 'w"
  net_listen :: "fd \<Rightarrow> int \<Rightarrow> 'w \<Rightarrow> unit sys_ret \<times> 'w"
  net_connect :: "fd \<Rightarrow> sockaddr_in \<Rightarrow> 'w \<Rightarrow> unit sys_ret \<times> 'w"
  net_inet_pton :: "int \<Rightarrow> string \<Rightarrow> u32 option"

abbreviation AF_INET :: int where "AF_INET \<equiv> 2"
abbreviation SOCK_STREAM :: int where "SOCK_STREAM \<equiv> 1"
abbreviation SOCK_STREAM_CLOEXEC :: int where "SOCK_STREAM_CLOEXEC \<equiv> 524289"
abbreviation INADDR_ANY :: u32 where "INADDR_ANY \<equiv> 0"

text \<open>\<open>Socket{::socket(...)}\<close>.\<close>

definition open_socket :: "'w net \<Rightarrow> int \<Rightarrow> 'w \<Rightarrow> Socket \<times> 'w" where
  "open_socket net type w =
     (case net_socket net AF_INET type 0 w of
        (Ok fd, w') \<Rightarrow> (Socket_of_fd fd, w')
      | (Fail _, w') \<Rightarrow> (Socket_of_fd (-1), w'))"

section \<open>The server\<close>

definition kServerPort :: u16 where "kServerPort = 9000"
definition kListenBacklog :: int where "kListenBacklog = 128"
definition kWorkerCount :: nat where "kWorkerCount = 4"
definition kTaskQueueCapacity :: nat where "kTaskQueueCapacity = 1024"

text \<open>The \<open>try\<close> block of \<open>main\<close>; the listener is moved into the event loop.\<close>

definition serve ::
  "endian \<Rightarrow> 'w os \<Rightarrow> 'w sched \<Rightarrow> (nat \<Rightarrow> bool) \<Rightarrow> 'w sched \<Rightarrow> ((fd \<rightharpoonup> ClientState) \<Rightarrow> fd list)
     \<Rightarrow> Socket \<Rightarrow> 'w \<Rightarrow> (int \<times> 'w) option" where
  "serve e os sched spawn shutdown order listener w =
     (case make_EventLoop os spawn (fst (socket_move listener)) kWorkerCount kTaskQueueCapacity w of
        (Inl ex, w1) \<Rightarrow> Some (1, w1)
      | (Inr event_loop, w1) \<Rightarrow>
          if \<not> el_valid event_loop then Some (1, el_destroy os shutdown order event_loop w1)
          else
            (case run e os sched event_loop w1 of
               None \<Rightarrow> None
             | Some (status, event_loop', w2) \<Rightarrow>
                 Some (status, el_destroy os shutdown order event_loop' w2)))"

definition server_main ::
  "endian \<Rightarrow> 'w os \<Rightarrow> 'w net \<Rightarrow> 'w sched \<Rightarrow> (nat \<Rightarrow> bool) \<Rightarrow> 'w sched
     \<Rightarrow> ((fd \<rightharpoonup> ClientState) \<Rightarrow> fd list) \<Rightarrow> 'w \<Rightarrow> (int \<times> 'w) option" where
  "server_main e os net sched spawn shutdown order w =
     (case open_socket net SOCK_STREAM_CLOEXEC w of
        (listener, w1) \<Rightarrow>
          if \<not> socket_valid listener then Some (1, socket_destroy os listener w1)
          else
            (case net_setsockopt_reuseaddr net (sock_fd listener) 1 w1 of
               (Fail _, w2) \<Rightarrow> Some (1, socket_destroy os listener w2)
             | (Ok _, w2) \<Rightarrow>
                 (case net_bind net (sock_fd listener) \<lparr>sin_family = AF_INET,
                     sin_port = htons e kServerPort, sin_addr = htonl e INADDR_ANY\<rparr> w2 of
                    (Fail _, w3) \<Rightarrow> Some (1, socket_destroy os listener w3)
                  | (Ok _, w3) \<Rightarrow>
                      (case net_listen net (sock_fd listener) kListenBacklog w3 of
                         (Fail _, w4) \<Rightarrow> Some (1, socket_destroy os listener w4)
                       | (Ok _, w4) \<Rightarrow>
                           map_option (\<lambda>(status, w5). (status, socket_destroy os (snd (socket_move listener)) w5))
                             (serve e os sched spawn shutdown order listener w4)))))"

section \<open>The device simulator\<close>

definition kServerAddress :: string where "kServerAddress = ''127.0.0.1''"

definition telemetry :: string where
  "telemetry = ''{\"device_id\":\"sensor-001\",\"temperature\":25.4,\"humidity\":61}''"

definition exchange :: "endian \<Rightarrow> 'w os \<Rightarrow> fd \<Rightarrow> 'w \<Rightarrow> (int \<times> bytes \<times> 'w) option" where
  "exchange e os fd w =
     (case sendFrame e os fd (map of_char telemetry) w of
        None \<Rightarrow> None
      | Some (send_result, w1) \<Rightarrow>
          if \<not> SendFrameResult_completed send_result then Some (1, [], w1)
          else
            (case receiveFrame e os fd w1 of
               None \<Rightarrow> None
             | Some (response_result, w2) \<Rightarrow>
                 if \<not> ReceiveFrameResult_completed response_result then Some (1, [], w2)
                 else Some (0, rf_payload response_result, w2)))"

text \<open>The exit status, the response that is printed, and the world after the socket is closed.\<close>

definition simulator_main :: "endian \<Rightarrow> 'w os \<Rightarrow> 'w net \<Rightarrow> 'w \<Rightarrow> (int \<times> bytes \<times> 'w) option" where
  "simulator_main e os net w =
     (case open_socket net SOCK_STREAM w of
        (connection, w1) \<Rightarrow>
          if \<not> socket_valid connection then Some (1, [], socket_destroy os connection w1)
          else
            (case net_inet_pton net AF_INET kServerAddress of
               None \<Rightarrow> Some (1, [], socket_destroy os connection w1)
             | Some addr \<Rightarrow>
                 (case net_connect net (sock_fd connection)
                     \<lparr>sin_family = AF_INET, sin_port = htons e kServerPort, sin_addr = addr\<rparr> w1 of
                    (Fail _, w2) \<Rightarrow> Some (1, [], socket_destroy os connection w2)
                  | (Ok _, w2) \<Rightarrow>
                      map_option (\<lambda>(status, response, w3). (status, response, socket_destroy os connection w3))
                        (exchange e os (sock_fd connection) w2))))"

section \<open>Properties\<close>

lemma serve_status:
  assumes "serve e os sched spawn shutdown order listener w = Some (status, w')"
  shows "status = 1"
  using assms run_steps [of e os sched]
  by (auto simp: serve_def split: prod.splits sum.splits if_splits option.splits)

lemma telemetry_fits: "fits_frame (map of_char telemetry)"
  by (simp add: fits_frame_def telemetry_def)

definition failing_net :: "kernel net" where
  "failing_net = \<lparr>net_socket = (\<lambda>family type protocol k. (Ok 8, k)),
     net_setsockopt_reuseaddr = (\<lambda>fd value k. (Ok (), k)),
     net_bind = (\<lambda>fd addr k. (Fail 98, k)), net_listen = (\<lambda>fd n k. (Ok (), k)),
     net_connect = (\<lambda>fd addr k. (Ok (), k)), net_inet_pton = (\<lambda>family s. Some 0)\<rparr>"

text \<open>
  The bytes sent and received on every socket: receiving changes no output, sending no
  input, and closing a socket neither.
\<close>

definition stream_frames :: "'w os \<Rightarrow> (fd \<Rightarrow> 'w \<Rightarrow> bytes) \<Rightarrow> (fd \<Rightarrow> 'w \<Rightarrow> bytes) \<Rightarrow> bool" where
  "stream_frames os out inp \<longleftrightarrow> send_contract os out \<and> recv_contract os inp
   \<and> (\<forall>fd g data flags v. inp g (snd (sys_send os fd data flags v)) = inp g v)
   \<and> (\<forall>fd g k flags v. out g (snd (sys_recv os fd k flags v)) = out g v)
   \<and> (\<forall>fd g v. out g (sys_close os fd v) = out g v \<and> inp g (sys_close os fd v) = inp g v)"

lemma send_other:
  assumes "send_contract os out" and "g \<noteq> fd"
  shows "out g (snd (sys_send os fd data flags v)) = out g v"
proof -
  obtain r v' where "sys_send os fd data flags v = (r, v')" by fastforce
  with send_contractD(3,4) [OF assms(1)] assms(2) show ?thesis by (cases r) auto
qed

lemma exchange_post:
  assumes os: "stream_frames os out inp" and x: "exchange e os fd w = Some (0, response, w')"
  shows "out fd w' = out fd w @ encode_frame (map of_char telemetry)"
    and "inp fd w' = inp fd w @ encode_frame response"
    and "g \<noteq> fd \<Longrightarrow> out g w' = out g w"
proof -
  from os have c: "send_contract os out" "recv_contract os inp"
    and frame: "\<And>fd g data flags v. inp g (snd (sys_send os fd data flags v)) = inp g v"
      "\<And>fd g k flags v. out g (snd (sys_recv os fd k flags v)) = out g v"
    by (auto simp: stream_frames_def)
  from x obtain sr w1 rr where s: "sendFrame e os fd (map of_char telemetry) w = Some (sr, w1)"
    and sc: "sf_status sr = frame_completed" and r: "receiveFrame e os fd w1 = Some (rr, w')"
    and rc: "rf_status rr = frame_completed" "response = rf_payload rr"
    by (auto simp: exchange_def SendFrameResult_completed_def ReceiveFrameResult_completed_def
        split: option.splits if_splits)
  have recv: "out g w' = out g w1" for g using receiveFrame_frame [of "out g", OF frame(2) r] .
  have "out fd w1 = out fd w @ encode_frame (map of_char telemetry)"
    using sendFrame_prefix [OF c(1) telemetry_fits s] sc by (auto simp: sent_prefix_def)
  with recv show "out fd w' = out fd w @ encode_frame (map of_char telemetry)" by simp
  have "inp fd w1 = inp fd w" using sendFrame_frame [of "inp fd", OF frame(1) s] .
  then show "inp fd w' = inp fd w @ encode_frame response"
    using receiveFrame_post [OF c(2) r] rc by auto
  show "out g w' = out g w" if "g \<noteq> fd"
    using sendFrame_frame [of "out g", OF send_other [OF c(1) that] s] recv by simp
qed

text \<open>C36: When the device simulator exits with status 0, it has created a socket and connected it
  to port 9000 of 127.0.0.1; from the moment it was connected until \<open>main\<close> returned it has
  sent on it exactly one frame, the telemetry, and nothing on any other socket, and it has
  consumed exactly one frame, whose payload is what it prints. The last thing it did was to
  close the socket.\<close>

theorem simulator_exchanges_one_frame:
  assumes "stream_frames os out inp" and "simulator_main e os net w = Some (0, response, w')"
  shows "\<exists>fd w1 addr connected last. net_socket net AF_INET SOCK_STREAM 0 w = (Ok fd, w1) \<and> 0 \<le> fd
    \<and> net_inet_pton net AF_INET ''127.0.0.1'' = Some addr
    \<and> net_connect net fd \<lparr>sin_family = AF_INET, sin_port = htons e 9000, sin_addr = addr\<rparr> w1 = (Ok (), connected)
    \<and> out fd w' = out fd connected @ encode_frame (map of_char telemetry)
    \<and> inp fd w' = inp fd connected @ encode_frame response
    \<and> (\<forall>g. g \<noteq> fd \<longrightarrow> out g w' = out g connected)
    \<and> w' = sys_close os fd last"
proof -
  from assms(2) obtain fd w1 addr w2 w3 where calls: "net_socket net AF_INET SOCK_STREAM 0 w = (Ok fd, w1)" "0 \<le> fd"
      "net_inet_pton net AF_INET ''127.0.0.1'' = Some addr"
      "net_connect net fd \<lparr>sin_family = AF_INET, sin_port = htons e 9000, sin_addr = addr\<rparr> w1 = (Ok (), w2)"
    and x: "exchange e os fd w2 = Some (0, response, w3)" and w': "w' = sys_close os fd w3"
    by (auto simp: simulator_main_def open_socket_def Socket_of_fd_def socket_defs kServerPort_def
        kServerAddress_def split: prod.splits sys_ret.splits if_splits option.splits)
  have "out g w' = out g w3" "inp g w' = inp g w3" for g
    using assms(1) w' by (simp_all add: stream_frames_def)
  with exchange_post [OF assms(1) x] calls w' show ?thesis by metis
qed

lemma bulk_sends_frame:
  assumes "fits_frame p" and "p \<noteq> []"
  shows "sendFrame Little bulk_os fd p k = Some (\<lparr>sf_status = frame_completed, sf_bytes_transferred = 4 + length p,
    sf_error_number = 0\<rparr>, k\<lparr>k_out := (k_out k)(fd := k_out k fd @ encode_frame p)\<rparr>)"
proof -
  let ?h = "be_bytes (of_nat (length p))"
  let ?k1 = "k\<lparr>k_out := (k_out k)(fd := k_out k fd @ ?h)\<rparr>"
  have "?h \<noteq> []" by (simp add: be_bytes_def)
  then have 1: "sendAll bulk_os fd ?h k = Some (\<lparr>io_status = io_completed, io_bytes_transferred = 4,
      io_error_number = 0\<rparr>, ?k1)"
    using sendAll_at_once [of bulk_os fd ?h k ?k1] by (simp add: bulk_os_def)
  have 2: "sendAll bulk_os fd p ?k1 = Some (\<lparr>io_status = io_completed, io_bytes_transferred = length p,
      io_error_number = 0\<rparr>, k\<lparr>k_out := (k_out k)(fd := k_out k fd @ encode_frame p)\<rparr>)"
    using sendAll_at_once [of bulk_os fd p ?k1 "?k1\<lparr>k_out := (k_out ?k1)(fd := k_out ?k1 fd @ p)\<rparr>"] assms(2)
    by (simp add: bulk_os_def encode_frame_def)
  have "\<not> unat max_payload_size < length p" using assms(1) by (simp add: fits_frame_def)
  then show ?thesis using 1 2 by (simp add: sendFrame_def Let_def IoResult_completed_def)
qed

lemma bulk_receives_empty_frame:
  assumes "k_avail k fd = [0, 0, 0, 0]"
  shows "receiveFrame Little bulk_os fd k = Some (\<lparr>rf_status = frame_completed, rf_payload = [],
    rf_bytes_transferred = 4, rf_error_number = 0\<rparr>,
    k\<lparr>k_in := (k_in k)(fd := k_in k fd @ [0, 0, 0, 0]), k_avail := (k_avail k)(fd := [])\<rparr>)"
  (is "_ = Some (_, ?k1)")
proof -
  have 1: "receiveExact bulk_os fd (replicate 4 0) k = Some (\<lparr>io_status = io_completed,
      io_bytes_transferred = 4, io_error_number = 0\<rparr>, [0, 0, 0, 0], ?k1)"
    using receiveExact_at_once [of bulk_os fd "replicate 4 0" k "[0, 0, 0, 0]" ?k1] assms
    by (simp add: bulk_os_def)
  have 2: "receiveExact bulk_os fd [] ?k1 = Some (\<lparr>io_status = io_completed,
      io_bytes_transferred = 0, io_error_number = 0\<rparr>, [], ?k1)"
    by (simp add: receiveExact_def receiveExact_body_def loop_leave)
  have "ntohl Little (u32_of_bytes Little [0, 0, 0, 0]) = 0" by (simp add: be_word_def)
  then show ?thesis using 1 2 by (simp add: receiveFrame_def Let_def IoResult_completed_def)
qed

lemma bulk_stream_frames: "stream_frames bulk_os sample_out sample_in"
  using bulk_contracts by (simp add: stream_frames_def bulk_os_def sample_os_def)

theorem simulator_exchanges_one_frame_witness:
  "\<exists>w'. simulator_main Little bulk_os failing_net (sample_world\<lparr>k_avail := (\<lambda>_. [0, 0, 0, 0])\<rparr>) = Some (0, [], w')
   \<and> k_out w' 8 = encode_frame (map of_char telemetry) \<and> k_in w' 8 = encode_frame [] \<and> k_out w' 7 = []"
proof -
  let ?w = "sample_world\<lparr>k_avail := (\<lambda>_. [0, 0, 0, 0])\<rparr>"
  let ?p = "map of_char telemetry :: bytes"
  let ?w1 = "?w\<lparr>k_out := (k_out ?w)(8 := k_out ?w 8 @ encode_frame ?p)\<rparr>"
  have p: "?p \<noteq> []" by (simp add: telemetry_def)
  obtain w3 where "exchange Little bulk_os 8 ?w = Some (0, [], w3)"
    using bulk_sends_frame [OF telemetry_fits p, of 8 ?w] bulk_receives_empty_frame [of ?w1 8]
    by (simp add: exchange_def SendFrameResult_completed_def ReceiveFrameResult_completed_def)
  then obtain w' where m: "simulator_main Little bulk_os failing_net ?w = Some (0, [], w')"
    by (simp add: simulator_main_def open_socket_def failing_net_def Socket_of_fd_def socket_valid_def)
  from simulator_exchanges_one_frame [OF bulk_stream_frames m] m show ?thesis
    by (auto simp: failing_net_def sample_world_def)
qed

section \<open>Descriptors over the life of the server\<close>

text \<open>
  Which descriptors the calls of the set-up open: a call that succeeds opens a descriptor
  that was not open, one that fails opens none, and the others open and close nothing.
\<close>

definition opens_fresh :: "'w view \<Rightarrow> fd sys_ret \<times> 'w \<Rightarrow> 'w \<Rightarrow> bool" where
  "opens_fresh K r w \<longleftrightarrow>
     (case r of
        (Ok fd, w') \<Rightarrow> 0 \<le> fd \<and> fd \<notin> v_open K w \<and> v_open K w' = insert fd (v_open K w)
      | (Fail _, w') \<Rightarrow> v_open K w' = v_open K w)"

definition setup_contract :: "'w os \<Rightarrow> 'w net \<Rightarrow> 'w view \<Rightarrow> bool" where
  "setup_contract os net K \<longleftrightarrow> startup_contract os K
   \<and> (\<forall>family type protocol w. opens_fresh K (net_socket net family type protocol w) w
        \<and> v_accepted K (snd (net_socket net family type protocol w)) = v_accepted K w)
   \<and> (\<forall>flags w. opens_fresh K (sys_epoll_create1 os flags w) w)
   \<and> (\<forall>init flags w. opens_fresh K (sys_eventfd os init flags w) w)
   \<and> (\<forall>fd value w. same_tables K w (snd (net_setsockopt_reuseaddr net fd value w)))
   \<and> (\<forall>fd addr w. same_tables K w (snd (net_bind net fd addr w)))
   \<and> (\<forall>fd backlog w. same_tables K w (snd (net_listen net fd backlog w)))
   \<and> (\<forall>fd w. v_open K (sys_close os fd w) = v_open K w - {fd})"

lemma setup_contractD:
  assumes "setup_contract os net K"
  shows "startup_contract os K" "opens_fresh K (net_socket net family type protocol w) w"
    "v_accepted K (snd (net_socket net family type protocol w)) = v_accepted K w"
    "opens_fresh K (sys_epoll_create1 os flags w) w" "opens_fresh K (sys_eventfd os init flags w) w"
    "same_tables K w (snd (net_setsockopt_reuseaddr net fd value w))"
    "same_tables K w (snd (net_bind net fd addr w))" "same_tables K w (snd (net_listen net fd backlog w))"
    "v_open K (sys_close os fd w) = v_open K w - {fd}"
  using assms by (simp_all add: setup_contract_def)

text \<open>The descriptor of a handle, if it has one.\<close>

definition owned :: "fd \<Rightarrow> fd set" where
  "owned fd = (if 0 \<le> fd then {fd} else {})"

lemma handles_close:
  assumes "\<And>fd w. v_open K (sys_close os fd w) = v_open K w - {fd}"
  shows "v_open K (socket_destroy os s w) = v_open K w - owned (sock_fd s)"
    and "v_open K (efd_destroy os x w) = v_open K w - owned (efd_fd x)"
    and "v_open K (epoll_destroy os p w) = v_open K w - owned (ep_fd p)"
  using assms by (auto simp: socket_defs efd_destroy_def efd_closeDescriptor_def epoll_destroy_def
      epoll_valid_def owned_def)

lemma destroy_connections_close:
  assumes "\<And>fd w. v_open K (sys_close os fd w) = v_open K w - {fd}"
  shows "v_open K (destroy_connections os css w) =
    v_open K w - (\<Union>cs \<in> set css. owned (conn_fd (cs_connection cs)))"
  by (induction css arbitrary: w)
    (auto simp: conn_destroy_def conn_fd_def handles_close(1) [OF assms])

lemma opens_freshD:
  "opens_fresh K (Ok fd, w') w \<Longrightarrow> 0 \<le> fd \<and> fd \<notin> v_open K w \<and> v_open K w' = insert fd (v_open K w)"
  "opens_fresh K (Fail en, w') w \<Longrightarrow> v_open K w' = v_open K w"
  by (simp_all add: opens_fresh_def)

lemma make_Epoll_opens:
  assumes "setup_contract os net K" and "make_Epoll os w = (p, w')"
  shows "v_open K w' = v_open K w \<union> owned (ep_fd p) \<and> owned (ep_fd p) \<inter> v_open K w = {}"
proof -
  obtain r v where c: "sys_epoll_create1 os EPOLL_CLOEXEC w = (r, v)" by fastforce
  with setup_contractD(4) [OF assms(1), of EPOLL_CLOEXEC w] assms(2) show ?thesis
    by (cases r) (auto simp: make_Epoll_def owned_def dest: opens_freshD)
qed

lemma make_EventFd_opens:
  assumes "setup_contract os net K" and "make_EventFd os n w = (x, w')"
  shows "v_open K w' = v_open K w \<union> owned (efd_fd x) \<and> owned (efd_fd x) \<inter> v_open K w = {}"
proof -
  obtain r v where c: "sys_eventfd os n EFD_NONBLOCK_CLOEXEC w = (r, v)" by fastforce
  with setup_contractD(5) [OF assms(1), of n EFD_NONBLOCK_CLOEXEC w] assms(2) show ?thesis
    by (cases r) (auto simp: make_EventFd_def owned_def dest: opens_freshD)
qed

lemma make_dispatcher_opens:
  assumes k: "setup_contract os net K" and made: "make_ProcessingDispatcher os spawn n c w = (r, w')"
  shows "(case r of
      Inl ex \<Rightarrow> v_open K w' = v_open K w
    | Inr d \<Rightarrow> v_open K w' = v_open K w \<union> owned (pd_notificationFd d)
        \<and> owned (pd_notificationFd d) \<inter> v_open K w = {})"
proof -
  obtain x w1 where x: "make_EventFd os 0 w = (x, w1)" by fastforce
  note o = make_EventFd_opens [OF k x] and cl = handles_close(2) [OF setup_contractD(9) [OF k]]
  from made x o cl show ?thesis
    by (auto simp: make_ProcessingDispatcher_def pd_notificationFd_def split: sum.splits if_splits)
qed

lemma EventLoop_setup_opens:
  assumes k: "setup_contract os net K" and e: "epoll_frame os K (ep_fd (el_epoll el0))"
    and s: "EventLoop_setup os el0 w = (el, w')"
  shows "v_open K w' = v_open K w"
proof -
  have nb: "v_open K v' = v_open K v" if "setNonBlocking os fd v = (r, v')" for fd v r v'
    using setNonBlocking_view [OF setup_contractD(1) [OF k] that] by (simp add: same_tables_def)
  have add: "v_open K v' = v_open K v" if "epoll_add os (el_epoll el0) fd ev v = (r, v')" for fd ev v r v'
    using epoll_control_view(1) [OF e that] by simp
  show ?thesis using s nb add by (auto simp: EventLoop_setup_def split: if_splits prod.splits)
qed

lemma EventLoop_setup_parts:
  assumes "EventLoop_setup os el0 w = (el, w')"
  shows "el_connections el = el_connections el0"
  using assms by (auto simp: EventLoop_setup_def split: if_splits prod.splits)

lemma make_EventLoop_opens:
  assumes k: "setup_contract os net K" and made: "make_EventLoop os spawn listener n c w = (r, w')"
    and e: "\<And>el. r = Inr el \<Longrightarrow> epoll_frame os K (ep_fd (el_epoll el))"
  shows "case r of
      Inl ex \<Rightarrow> v_open K w' = v_open K w - owned (sock_fd listener)
    | Inr el \<Rightarrow> listener_fd el = sock_fd listener \<and> el_connections el = Map.empty
        \<and> v_open K w' = v_open K w \<union> owned (ep_fd (el_epoll el)) \<union> owned (notifier_fd el)
        \<and> (owned (ep_fd (el_epoll el)) \<union> owned (notifier_fd el)) \<inter> v_open K w = {}"
proof (cases r)
  case (Inl ex)
  obtain ep w1 where ep: "make_Epoll os w = (ep, w1)" by fastforce
  with made Inl obtain w2 where d: "make_ProcessingDispatcher os spawn n c w1 = (Inl ex, w2)"
    and w': "w' = socket_destroy os (fst (socket_move listener)) (epoll_destroy os ep w2)"
    by (auto simp: make_EventLoop_def Let_def split: prod.splits sum.splits)
  note cl = handles_close [OF setup_contractD(9) [OF k]]
  have "sock_fd (fst (socket_move listener)) = sock_fd listener" by (simp add: socket_defs)
  then show ?thesis
    using make_Epoll_opens [OF k ep] make_dispatcher_opens [OF k d] Inl unfolding w' cl by auto
next
  case (Inr el)
  obtain w1 w2 d where ep: "make_Epoll os w = (el_epoll el, w1)"
    and dp: "make_ProcessingDispatcher os spawn n c w1 = (Inr d, w2)" and d: "d = el_dispatcher el"
    and lfd: "listener_fd el = sock_fd listener"
    and set: "EventLoop_setup os \<lparr>el_listener = el_listener el, el_epoll = el_epoll el,
       el_connections = Map.empty, el_next_connection_id = 1, el_error_number = 0,
       el_initialized = False, el_dispatcher = d\<rparr> w2 = (el, w')"
    using made [unfolded Inr] by (rule make_EventLoop_parts)
  have "v_open K w' = v_open K w2" using EventLoop_setup_opens [OF k _ set] e [OF Inr] by simp
  with make_Epoll_opens [OF k ep] make_dispatcher_opens [OF k dp] EventLoop_setup_parts [OF set] lfd d Inr
  show ?thesis by auto
qed

text \<open>The destructor of the loop closes every descriptor it owns.\<close>

definition lists_entries :: "((fd \<rightharpoonup> ClientState) \<Rightarrow> fd list) \<Rightarrow> bool" where
  "lists_entries order \<longleftrightarrow> (\<forall>m. finite (dom m) \<longrightarrow> set (order m) = dom m)"

lemma el_destroy_closes:
  assumes close: "\<And>fd w. v_open K (sys_close os fd w) = v_open K w - {fd}"
    and shutdown: "workers_run os shutdown" and ev: "eventfd_frame os K (notifier_fd el)"
    and order: "lists_entries order" and fin: "finite (dom (el_connections el))"
    and fds: "\<And>fd cs. el_connections el fd = Some cs \<Longrightarrow> 0 \<le> fd \<and> conn_fd (cs_connection cs) = fd"
  shows "v_open K (el_destroy os shutdown order el w) =
    v_open K w - owned (notifier_fd el) - dom (el_connections el) - owned (ep_fd (el_epoll el))
      - owned (listener_fd el)"
proof -
  let ?m = "el_connections el"
  obtain d w1 where s: "shutdown (pd_stop (el_dispatcher el), w) = (d, w1)" by fastforce
  then have "(background_step os)\<^sup>*\<^sup>* (pd_stop (el_dispatcher el), w) (d, w1)"
    using shutdown unfolding workers_run_def by metis
  from backgrounds_view [OF this, of K] ev
  have 1: "v_open K w1 = v_open K w" "efd_fd (pd_notifier d) = notifier_fd el"
    by (simp_all add: same_tables_def pd_stop_def pd_notificationFd_def)
  have "set (List.map_filter ?m (order ?m)) = ran ?m"
    using order fin by (force simp: lists_entries_def map_filter_def ran_def)
  moreover have "(\<Union>cs \<in> ran ?m. owned (conn_fd (cs_connection cs))) = dom ?m"
    using fds by (auto simp: ran_def owned_def dom_def split: if_splits)
  ultimately show ?thesis
    using s 1 handles_close [OF close] destroy_connections_close [OF close]
    by (simp add: el_destroy_def Let_def)
qed

definition kernel_of_server :: "'w os \<Rightarrow> (nat \<Rightarrow> bool) \<Rightarrow> 'w view \<Rightarrow> bool" where
  "kernel_of_server os spawn K \<longleftrightarrow>
     (\<forall>listener w el w'. make_EventLoop os spawn listener kWorkerCount kTaskQueueCapacity w = (Inr el, w') \<longrightarrow>
        kernel_for os K el)"

lemma el_destroy_reached:
  assumes k: "setup_contract os net K" "kernel_for os K el" and inv: "server_inv K B el w"
    and shutdown: "workers_run os shutdown" "lists_entries order"
  shows "v_open K (el_destroy os shutdown order el w) =
    B - owned (notifier_fd el) - owned (ep_fd (el_epoll el)) - owned (listener_fd el)"
proof -
  have d: "descriptors_ok K B el w" using inv by (simp add: server_inv_def loop_inv_def)
  have "v_open K (el_destroy os shutdown order el w) =
    v_open K w - owned (notifier_fd el) - dom (el_connections el) - owned (ep_fd (el_epoll el))
      - owned (listener_fd el)"
    by (rule el_destroy_closes [OF setup_contractD(9) [OF k(1)] shutdown(1) server_kernelD(8) [OF k(2)] shutdown(2)])
      (use d in \<open>auto simp: descriptors_ok_def\<close>)
  with d show ?thesis by (auto simp: descriptors_ok_def)
qed

lemma serve_closes:
  assumes k: "setup_contract os net K" "kernel_of_server os spawn K"
    and sched: "workers_run os sched" and shutdown: "workers_run os shutdown" "lists_entries order"
    and l: "sock_fd listener \<in> v_open K w" "0 \<le> sock_fd listener" "v_accepted K w = 0"
    and s: "serve e os sched spawn shutdown order listener w = Some (status, w')"
  shows "v_open K w' = v_open K w - {sock_fd listener}"
proof -
  let ?l = "fst (socket_move listener)"
  have fd: "sock_fd ?l = sock_fd listener" "owned (sock_fd listener) = {sock_fd listener}"
    using l(2) by (simp_all add: socket_defs owned_def)
  obtain r w1 where made: "make_EventLoop os spawn ?l kWorkerCount kTaskQueueCapacity w = (r, w1)" by fastforce
  have kf: "kernel_for os K el" if "r = Inr el" for el using k(2) made that unfolding kernel_of_server_def by blast
  note opens = make_EventLoop_opens [OF k(1) made server_kernelD(9) [OF kf], simplified]
  show ?thesis
  proof (cases r)
    case (Inl ex)
    then show ?thesis using s made opens fd by (auto simp: serve_def)
  next
    case (Inr el)
    have "v_open K w' = v_open K w1 - owned (notifier_fd el) - owned (ep_fd (el_epoll el)) - owned (listener_fd el)"
    proof (cases "el_valid el")
      case False
      then have "w' = el_destroy os shutdown order el w1" using s made Inr by (auto simp: serve_def)
      moreover have "el_connections el = Map.empty" using opens Inr by simp
      ultimately show ?thesis
        using el_destroy_closes [OF setup_contractD(9) [OF k(1)] shutdown(1)
            server_kernelD(8) [OF kf [OF Inr]] shutdown(2), of w1] by simp
    next
      case True
      with s made Inr obtain el' w2 where run: "run e os sched el w1 = Some (status, el', w2)"
        and w': "w' = el_destroy os shutdown order el' w2"
        by (auto simp: serve_def split: option.splits)
      have "sock_fd ?l \<in> v_open K w" using l(1) fd by simp
      note start = make_EventLoop_inv [OF setup_contractD(1) [OF k(1)] made [unfolded Inr] True kf [OF Inr] this l(3)]
      have steps: "(el_step e os sched)\<^sup>*\<^sup>* (el, w1) (el', w2)" using run_steps [OF run] by simp
      note inv = el_steps_inv [OF steps kf [OF Inr] sched start]
      from el_destroy_reached [OF k(1) kernel_for_same [OF kf [OF Inr]] conjunct1 [OF inv] shutdown] inv w'
      show ?thesis by (simp add: same_handles_def pd_notificationFd_def)
    qed
    then show ?thesis using opens Inr fd by auto
  qed
qed

lemma server_main_set_up_fails:
  assumes "server_main e os net sched spawn shutdown order w = Some (status, w')"
  shows "status = 1"
    and "net_socket net AF_INET SOCK_STREAM_CLOEXEC 0 w = (Fail en, w1) \<Longrightarrow> w' = w1"
    and "net_socket net AF_INET SOCK_STREAM_CLOEXEC 0 w = (Ok fd, w1) \<Longrightarrow> 0 \<le> fd \<Longrightarrow>
      net_setsockopt_reuseaddr net fd 1 w1 = (Fail en, w2) \<Longrightarrow> w' = sys_close os fd w2"
    and "net_socket net AF_INET SOCK_STREAM_CLOEXEC 0 w = (Ok fd, w1) \<Longrightarrow> 0 \<le> fd \<Longrightarrow>
      net_setsockopt_reuseaddr net fd 1 w1 = (Ok (), w2) \<Longrightarrow>
      net_bind net fd \<lparr>sin_family = AF_INET, sin_port = htons e 9000, sin_addr = htonl e 0\<rparr> w2 = (Fail en, w3) \<Longrightarrow>
      w' = sys_close os fd w3"
    and "net_socket net AF_INET SOCK_STREAM_CLOEXEC 0 w = (Ok fd, w1) \<Longrightarrow> 0 \<le> fd \<Longrightarrow>
      net_setsockopt_reuseaddr net fd 1 w1 = (Ok (), w2) \<Longrightarrow>
      net_bind net fd \<lparr>sin_family = AF_INET, sin_port = htons e 9000, sin_addr = htonl e 0\<rparr> w2 = (Ok (), w3) \<Longrightarrow>
      net_listen net fd 128 w3 = (Fail en, w4) \<Longrightarrow> w' = sys_close os fd w4"
  using assms serve_status [of e os sched spawn shutdown order]
  by (auto simp: server_main_def open_socket_def Socket_of_fd_def kServerPort_def kListenBacklog_def socket_defs
      split: prod.splits sys_ret.splits if_splits)

lemma server_main_listening:
  assumes "server_main e os net sched spawn shutdown order w = Some (status, w')"
    and "net_socket net AF_INET SOCK_STREAM_CLOEXEC 0 w = (Ok fd, w1)" and "0 \<le> fd"
    and "net_setsockopt_reuseaddr net fd 1 w1 = (Ok (), w2)"
    and "net_bind net fd \<lparr>sin_family = AF_INET, sin_port = htons e 9000, sin_addr = htonl e 0\<rparr> w2 = (Ok (), w3)"
    and "net_listen net fd 128 w3 = (Ok (), w4)"
  shows "serve e os sched spawn shutdown order (Socket_of_fd fd) w4 = Some (status, w')"
  using assms
  by (auto simp: server_main_def open_socket_def Socket_of_fd_def kServerPort_def kListenBacklog_def socket_defs)

lemma listener_opens:
  assumes "setup_contract os net K" and "v_accepted K w = 0"
    and "net_socket net AF_INET SOCK_STREAM_CLOEXEC 0 w = (Ok fd, w1)"
  shows "0 \<le> fd \<and> fd \<notin> v_open K w \<and> v_open K w1 = insert fd (v_open K w) \<and> v_accepted K w1 = 0"
  using setup_contractD(2,3) [OF assms(1), of AF_INET SOCK_STREAM_CLOEXEC 0 w] assms(2,3)
  by (auto dest: opens_freshD)

lemma server_main_descriptors:
  assumes k: "setup_contract os net K" "kernel_of_server os spawn K" and "v_accepted K w = 0"
    and runs: "workers_run os sched" "workers_run os shutdown" "lists_entries order"
    and main: "server_main e os net sched spawn shutdown order w = Some (status, w')"
    and sock: "net_socket net AF_INET SOCK_STREAM_CLOEXEC 0 w = (Ok fd, w1)"
  shows "v_open K w' = v_open K w"
proof -
  note f = listener_opens [OF k(1) assms(3) sock] and close = setup_contractD(9) [OF k(1), of fd]
  let ?a = "\<lparr>sin_family = AF_INET, sin_port = htons e 9000, sin_addr = htonl e 0\<rparr>"
  obtain q2 w2 where c2: "net_setsockopt_reuseaddr net fd 1 w1 = (q2, w2)" by fastforce
  obtain q3 w3 where c3: "net_bind net fd ?a w2 = (q3, w3)" by fastforce
  obtain q4 w4 where c4: "net_listen net fd 128 w3 = (q4, w4)" by fastforce
  have t: "same_tables K w1 w2" "same_tables K w1 w3" "same_tables K w1 w4"
    using setup_contractD(6) [OF k(1), of w1 fd 1] setup_contractD(7) [OF k(1), of w2 fd ?a]
      setup_contractD(8) [OF k(1), of w3 fd 128] c2 c3 c4 by (simp_all add: same_tables_def)
  consider "w' \<in> sys_close os fd ` {w2, w3, w4}" | "q2 = Ok ()" "q3 = Ok ()" "q4 = Ok ()"
    using server_main_set_up_fails(3-5) [OF main sock] f c2 c3 c4 by (cases q2; cases q3; cases q4) auto
  then show ?thesis
  proof cases
    case 1
    with f t close show ?thesis by (auto simp: same_tables_def)
  next
    case 2
    have "serve e os sched spawn shutdown order (Socket_of_fd fd) w4 = Some (status, w')"
      using server_main_listening [OF main sock] f c2 c3 c4 2 by simp
    from serve_closes [OF k runs _ _ _ this] f t show ?thesis
      by (simp add: same_tables_def Socket_of_fd_def)
  qed
qed

text \<open>C37: The server's exit status is 1 whenever \<open>main\<close> returns, as there is no orderly way out of
  the event loop, and \<open>main\<close> leaves no descriptor behind: on every path, whether a step of
  the set-up fails (creating, configuring, binding or listening on the socket, or setting up
  the event loop, its epoll instance, its eventfd or its worker threads) or the running
  server stops with connections open, the descriptors open at the end are those that were
  open at the start. When the socket cannot be created nothing else is done; when the
  socket cannot be configured, bound or listened on, closing it is the last thing done.\<close>

theorem server_main_closes_everything:
  assumes "setup_contract os net K" and "kernel_of_server os spawn K" and "v_accepted K w = 0"
    and "workers_run os sched" and "workers_run os shutdown" and "lists_entries order"
    and "server_main e os net sched spawn shutdown order w = Some (status, w')"
  shows "status = 1 \<and> v_open K w' = v_open K w
    \<and> (\<forall>en w1. net_socket net AF_INET SOCK_STREAM_CLOEXEC 0 w = (Fail en, w1) \<longrightarrow> w' = w1)
    \<and> (\<forall>fd w1 en w2. net_socket net AF_INET SOCK_STREAM_CLOEXEC 0 w = (Ok fd, w1) \<longrightarrow>
        net_setsockopt_reuseaddr net fd 1 w1 = (Fail en, w2) \<longrightarrow> w' = sys_close os fd w2)
    \<and> (\<forall>fd w1 en w2 w3. net_socket net AF_INET SOCK_STREAM_CLOEXEC 0 w = (Ok fd, w1) \<longrightarrow>
        net_setsockopt_reuseaddr net fd 1 w1 = (Ok (), w2) \<longrightarrow>
        net_bind net fd \<lparr>sin_family = AF_INET, sin_port = htons e 9000, sin_addr = htonl e 0\<rparr> w2 = (Fail en, w3) \<longrightarrow>
        w' = sys_close os fd w3)
    \<and> (\<forall>fd w1 en w2 w3 w4. net_socket net AF_INET SOCK_STREAM_CLOEXEC 0 w = (Ok fd, w1) \<longrightarrow>
        net_setsockopt_reuseaddr net fd 1 w1 = (Ok (), w2) \<longrightarrow>
        net_bind net fd \<lparr>sin_family = AF_INET, sin_port = htons e 9000, sin_addr = htonl e 0\<rparr> w2 = (Ok (), w3) \<longrightarrow>
        net_listen net fd 128 w3 = (Fail en, w4) \<longrightarrow> w' = sys_close os fd w4)"
proof -
  note fails = server_main_set_up_fails [OF assms(7)] and fresh = listener_opens [OF assms(1,3)]
  have "v_open K w' = v_open K w"
  proof (cases "net_socket net AF_INET SOCK_STREAM_CLOEXEC 0 w")
    case (Pair q w1)
    with fails(2) setup_contractD(2) [OF assms(1), of AF_INET SOCK_STREAM_CLOEXEC 0 w]
      server_main_descriptors [OF assms]
    show ?thesis by (cases q) (auto dest: opens_freshD)
  qed
  with fails fresh show ?thesis by blast
qed

text \<open>A network on which everything succeeds, in a process that cannot open an eventfd.\<close>

definition sample_net :: "kernel net" where
  "sample_net = \<lparr>net_socket = (\<lambda>family type protocol k.
       if 8 \<in> k_open k then (Fail EMFILE, k) else (Ok 8, k\<lparr>k_open := insert 8 (k_open k)\<rparr>)),
     net_setsockopt_reuseaddr = (\<lambda>fd value k. (Ok (), k)), net_bind = (\<lambda>fd addr k. (Ok (), k)),
     net_listen = (\<lambda>fd n k. (Ok (), k)), net_connect = (\<lambda>fd addr k. (Ok (), k)),
     net_inet_pton = (\<lambda>family s. Some 0)\<rparr>"

lemma sample_setup_contract: "setup_contract sample_os sample_net sample_view"
  using sample_startup_contract
  by (simp add: setup_contract_def opens_fresh_def sample_net_def sample_os_def same_tables_def)

lemma sample_loop_fails:
  assumes "k_open w = {4, 8}"
  obtains el w' where "make_EventLoop sample_os (\<lambda>_. True) (Socket_of_fd 8) kWorkerCount kTaskQueueCapacity w
    = (Inr el, w')" and "\<not> el_valid el"
proof -
  let ?w = "w\<lparr>k_open := {3, 4, 8}, k_interest := Map.empty\<rparr>"
  obtain pool :: "dispatch_task ThreadPool" where
    pool: "make_ThreadPool (\<lambda>_. True) kWorkerCount kTaskQueueCapacity = Inr pool"
    by (simp add: make_ThreadPool_cases kWorkerCount_def kTaskQueueCapacity_def)
  have ep: "make_Epoll sample_os w = (\<lparr>ep_fd = 3\<rparr>, ?w)"
    using assms by (simp add: make_Epoll_def sample_os_def)
  have "make_EventFd sample_os 0 ?w = (\<lparr>efd_fd = -1, efd_error_number = EMFILE\<rparr>, ?w)"
    by (simp add: make_EventFd_def sample_os_def)
  then obtain d where d: "make_ProcessingDispatcher sample_os (\<lambda>_. True) kWorkerCount kTaskQueueCapacity ?w
      = (Inr d, ?w)" "\<not> pd_valid d"
    using pool by (auto simp: make_ProcessingDispatcher_def efd_valid_def pd_valid_def)
  show thesis
    by (rule that) (use ep d in \<open>auto simp: make_EventLoop_def EventLoop_setup_def el_valid_def socket_defs
        Socket_of_fd_def epoll_valid_def\<close>)
qed

theorem server_main_closes_everything_witness:
  "\<exists>w'. server_main Little sample_os sample_net sample_sched (\<lambda>_. True) sample_sched (\<lambda>m. sorted_list_of_set (dom m))
      (sample_world\<lparr>k_open := {4}\<rparr>) = Some (1, w') \<and> k_open w' = {4}"
proof -
  let ?o = "\<lambda>m :: fd \<rightharpoonup> ClientState. sorted_list_of_set (dom m)" and ?w = "sample_world\<lparr>k_open := {4}\<rparr>"
  have k: "kernel_of_server sample_os (\<lambda>_. True) sample_view" "lists_entries ?o"
    using sample_server_kernel by (simp_all add: kernel_of_server_def lists_entries_def)
  obtain el v where "make_EventLoop sample_os (\<lambda>_. True) (Socket_of_fd 8) kWorkerCount kTaskQueueCapacity
      (?w\<lparr>k_open := {8, 4}\<rparr>) = (Inr el, v)" and "\<not> el_valid el"
    by (rule sample_loop_fails [of "?w\<lparr>k_open := {8, 4}\<rparr>"]) auto
  then obtain w' where m: "server_main Little sample_os sample_net sample_sched (\<lambda>_. True) sample_sched ?o ?w
      = Some (1, w')"
    by (simp add: server_main_def open_socket_def sample_net_def serve_def sample_world_def Socket_of_fd_def
        socket_defs)
  have "v_accepted sample_view ?w = 0" by (simp add: sample_world_def)
  from server_main_closes_everything [OF sample_setup_contract k(1) this sample_workers_run sample_workers_run k(2) m] m
  show ?thesis by auto
qed

section \<open>The simulator's socket\<close>

text \<open>What the simulator relies on: signals interrupt finitely often, and which calls open descriptors.\<close>

definition simulator_contract :: "'w os \<Rightarrow> 'w net \<Rightarrow> 'w view \<Rightarrow> ('w \<Rightarrow> nat) \<Rightarrow> bool" where
  "simulator_contract os net K m \<longleftrightarrow>
     send_contract os (v_out K) \<and> recv_contract os (v_in K) \<and> send_frame os K \<and> recv_frame os K
   \<and> send_interrupts_end os m \<and> recv_interrupts_end os m
   \<and> (\<forall>family type protocol w. opens_fresh K (net_socket net family type protocol w) w)
   \<and> (\<forall>fd addr w. v_open K (snd (net_connect net fd addr w)) = v_open K w)
   \<and> (\<forall>fd w. v_open K (sys_close os fd w) = v_open K w - {fd})"

lemma exchange_ends:
  assumes k: "simulator_contract os net K m"
  obtains status response w' where "exchange e os fd w = Some (status, response, w')"
    "v_open K w' = v_open K w" "status = 0 \<or> status = 1 \<and> response = []"
proof -
  from k have f: "send_frame os K" "recv_frame os K" by (simp_all add: simulator_contract_def)
  have snd: "v_open K (snd (sys_send os fd data flags v)) = v_open K v" for data flags v
    using send_frameD [OF f(1), of fd data flags v] by (metis prod.collapse same_tables_def)
  have rcv: "v_open K (snd (sys_recv os fd n flags v)) = v_open K v" for n flags v
    using recv_frameD [OF f(2), of fd n flags v] by (metis prod.collapse same_tables_def)
  obtain sr w1 where s: "sendFrame e os fd (map of_char telemetry) w = Some (sr, w1)"
    using k by (metis simulator_contract_def sendFrame_returns)
  obtain rr w2 where r: "receiveFrame e os fd w1 = Some (rr, w2)"
    using k by (metis simulator_contract_def receiveFrame_returns)
  have "v_open K w1 = v_open K w" using sendFrame_frame [of "v_open K", OF snd s] .
  moreover have "v_open K w2 = v_open K w1" using receiveFrame_frame [of "v_open K", OF rcv r] .
  ultimately show thesis
    using that s r by (cases "SendFrameResult_completed sr"; cases "ReceiveFrameResult_completed rr")
      (auto simp: exchange_def)
qed

text \<open>C38: The device simulator always returns, with status 0, or with status 1 and nothing printed
  as a response, and on every path its socket is closed: the descriptors open at the end are
  those open at the start. When the socket cannot be created, when the address is not accepted
  or the connection is refused, the status is 1.\<close>

theorem simulator_main_returns:
  assumes "simulator_contract os net K m"
  shows "\<exists>status response w'. simulator_main e os net w = Some (status, response, w')
    \<and> v_open K w' = v_open K w \<and> (status = 0 \<or> status = 1 \<and> response = [])
    \<and> (\<forall>en w1. net_socket net AF_INET SOCK_STREAM 0 w = (Fail en, w1) \<longrightarrow> status = 1)
    \<and> (net_inet_pton net AF_INET ''127.0.0.1'' = None \<longrightarrow> status = 1)
    \<and> (\<forall>fd w1 addr en w2. net_socket net AF_INET SOCK_STREAM 0 w = (Ok fd, w1) \<longrightarrow>
        net_inet_pton net AF_INET ''127.0.0.1'' = Some addr \<longrightarrow>
        net_connect net fd \<lparr>sin_family = AF_INET, sin_port = htons e 9000, sin_addr = addr\<rparr> w1 = (Fail en, w2) \<longrightarrow>
        status = 1)"
proof (cases "net_socket net AF_INET SOCK_STREAM 0 w")
  case (Pair q w1)
  from assms have fresh: "opens_fresh K (q, w1) w" using Pair by (metis simulator_contract_def)
  show ?thesis
  proof (cases q)
    case (Fail en)
    then show ?thesis using Pair fresh
      by (simp add: simulator_main_def open_socket_def Socket_of_fd_def socket_defs opens_freshD)
  next
    case (Ok fd)
    note f = opens_freshD(1) [OF fresh [unfolded Ok]]
    have close: "v_open K (sys_close os fd v) = v_open K w" if "v_open K v = v_open K w1" for v
      using assms f that by (auto simp: simulator_contract_def)
    let ?a = "\<lambda>addr. \<lparr>sin_family = AF_INET, sin_port = htons e 9000, sin_addr = addr\<rparr>"
    have conn: "v_open K v = v_open K w1" if "net_connect net fd a w1 = (r, v)" for a r v
      using assms that by (metis simulator_contract_def snd_conv)
    note unfold = simulator_main_def open_socket_def Socket_of_fd_def socket_defs kServerAddress_def kServerPort_def
    show ?thesis
    proof (cases "net_inet_pton net AF_INET ''127.0.0.1''")
      case None
      then show ?thesis using Pair Ok f close by (simp add: unfold)
    next
      case (Some addr)
      obtain r v where c: "net_connect net fd (?a addr) w1 = (r, v)" by fastforce
      obtain st resp v' where "exchange e os fd v = Some (st, resp, v')" "v_open K v' = v_open K v"
        "st = 0 \<or> st = 1 \<and> resp = []" by (rule exchange_ends [OF assms])
      then show ?thesis
        using Pair Ok f close conn [OF c] Some c by (cases r) (auto simp: unfold)
    qed
  qed
qed

text \<open>A server that refuses the connection.\<close>

theorem simulator_main_returns_witness:
  "\<exists>w'. simulator_main Little sample_os (sample_net\<lparr>net_connect := \<lambda>fd addr k. (Fail 111, k)\<rparr>) sample_world
       = Some (1, [], w') \<and> k_open w' = {7}"
proof -
  let ?net = "sample_net\<lparr>net_connect := \<lambda>fd addr k. (Fail 111, k)\<rparr>"
  have "simulator_contract sample_os ?net sample_view k_intr"
    using server_kernelD(1,2,6,7) [OF sample_server_kernel] sample_contracts(3,4)
      setup_contractD(2,9) [OF sample_setup_contract]
    by (simp add: simulator_contract_def sample_net_def)
  moreover have "net_socket ?net AF_INET SOCK_STREAM 0 sample_world
      = (Ok 8, sample_world\<lparr>k_open := {8, 7}\<rparr>)"
    by (simp add: sample_net_def sample_world_def)
  ultimately show ?thesis
    using simulator_main_returns [of sample_os ?net sample_view k_intr Little sample_world]
    by (auto simp: sample_net_def sample_world_def)
qed

end
