(* ===== verification/Spec2Isabelle.thy ===== *)
theory Spec2Isabelle
  imports Applications
begin

text \<open>
  NetPulse is a telemetry server in C++20 for Linux: one thread runs an epoll reactor over
  non-blocking sockets, a thread pool processes the frames the clients send, and the
  answers come back to the reactor through an eventfd. This development translates the
  implementation under \<open>include\<close>, \<open>src\<close>, \<open>apps\<close> and \<open>tools\<close> into executable definitions
  and proves what makes it correct.

  \<^bold>\<open>How the parts interact.\<close> \<open>apps/server/main.cpp\<close> opens a listening socket and hands it
  to \<open>EventLoop\<close>. \<open>EventLoop::run\<close> waits on \<open>Epoll\<close>; it accepts clients, each becoming a
  \<open>Connection\<close> with a \<open>FrameDecoder\<close> for input and a \<open>FrameWriteBuffer\<close> for output; it
  submits every decoded frame to the \<open>ProcessingDispatcher\<close>, which wraps it into a task of
  the \<open>ThreadPool\<close>, whose queue is a \<open>BoundedQueue\<close>; a worker computes the response,
  appends it to the completed list and writes to the \<open>EventFd\<close>; the loop takes the
  completed results and queues each response on the connection it belongs to. The device
  simulator is a blocking client that uses \<open>sendFrame\<close> and \<open>receiveFrame\<close>.

  \<^bold>\<open>Theories and sources.\<close>
  \<^item> \<open>Netpulse_Prelude\<close>: machine types, errno values, \<open>size_t\<close> subtraction, list lemmas, and
    the combinator \<open>loop\<close> for the source's unbounded loops with its proof rules.
  \<^item> \<open>Os_Interface\<close>: the system calls as a record of functions on an arbitrary world, and
    contracts that state documented behaviour of \<open>send\<close> and \<open>recv\<close>.
  \<^item> \<open>Byte_Order\<close>, \<open>Wire_Format\<close>: \<open>htonl\<close>, \<open>ntohl\<close> and object representations for both byte
    orders; the abstract wire format (\<open>encode_frame\<close>, \<open>next_frame\<close>, \<open>parse_frames\<close>) with
    the locale \<open>framing\<close>, to which every component that reads or writes frames is related.
  \<^item> \<open>Socket_Io\<close>, \<open>Frame_Io\<close>: \<open>src/network/io.cpp\<close>, \<open>src/protocol/frame.cpp\<close>.
  \<^item> \<open>Offset_Buffer\<close>, \<open>Frame_Decoder\<close>, \<open>Frame_Write_Buffer\<close>: \<open>src/protocol/frame_decoder.cpp\<close>
    and \<open>src/protocol/frame_write_buffer.cpp\<close>, both interpretations of the locale
    \<open>offset_buffer\<close>.
  \<^item> \<open>Owned_Descriptor\<close>, \<open>Socket_Handle\<close>, \<open>Event_Fd\<close>, \<open>Epoll_Handle\<close>: \<open>src/network/socket.cpp\<close>,
    \<open>event_fd.cpp\<close>, \<open>epoll.cpp\<close> and \<open>nonblocking.cpp\<close>; the three classes interpret the
    locale \<open>owned_descriptor\<close>.
  \<^item> \<open>Bounded_Queue\<close>, \<open>Thread_Pool\<close>: \<open>include/netpulse/concurrency/bounded_queue.hpp\<close> and
    \<open>src/concurrency/thread_pool.cpp\<close>; the queue interprets the locale \<open>bounded_fifo\<close>, the
    pool is a step relation.
  \<^item> \<open>Processing\<close>: \<open>src/server/processing.cpp\<close> and \<open>src/server/processing_dispatcher.cpp\<close>.
  \<^item> \<open>Connection_State\<close>: \<open>src/server/connection.cpp\<close>.
  \<^item> \<open>Event_Loop\<close>, \<open>Server_Kernel\<close>, \<open>Event_Loop_Invariant\<close>, \<open>Event_Loop_Properties\<close>:
    \<open>src/server/event_loop.cpp\<close>, the contract of the kernel it runs on, its invariant, and
    what follows from it.
  \<^item> \<open>Applications\<close>: \<open>apps/server/main.cpp\<close> and \<open>tools/device_simulator/main.cpp\<close>.
  \<^item> \<open>Sample_Kernel\<close>: a small kernel that keeps the contracts, used only to show that the
    hypotheses of the theorems can hold.

  \<^bold>\<open>Conventions.\<close> A class is a record, a member function a definition that takes and returns
  it; results structs are records, enumerations datatypes. Exceptions are the left side of
  a sum. A loop is the function of one iteration, run by \<open>loop\<close>; a loop that never ends has
  the value \<open>None\<close>, and that a function returns is always a theorem of its own (the
  lemmas \<open>..._returns\<close>, from a measure that goes down with every interrupted call). There
  is no fuel. Vectors and deques are lists, hash tables are maps, \<open>uint32_t\<close>, \<open>uint64_t\<close>
  and bytes are words. Sizes are natural numbers and differences of sizes are taken modulo
  \<open>2^64\<close>.

  \<^bold>\<open>Concurrency.\<close> The unit of interleaving is the critical section. A worker is about to
  look at the queue, asleep, executing the next stage of a task, or has returned; pending
  notifications of the condition variable are part of the state, and sleepers may wake up
  spuriously. The event loop runs worker steps (\<open>sched\<close>, any number of \<open>background_step\<close>s)
  before each of its accesses to the dispatcher and between any two events. Three places
  join steps of the source that no other thread can tell apart, or only through a query:
  \<open>stop\<close> sets its flag and closes the queue, \<open>ProcessingDispatcher::trySubmit\<close> tests
  \<open>valid()\<close> and submits, and \<open>publish\<close> retries its write and records the error.

  \<^bold>\<open>What is shown.\<close>
  \<^item> Protocol: sending and receiving are exact on every branch and report the call that
    ended them; a frame arrives unchanged
    between hosts of any byte order; the decoder refines the wire format and its memory is
    bounded; the write buffer never loses or reorders a byte and flushing is \<open>sendAll\<close>.
  \<^item> Handles: every descriptor has one owner; the eventfd counts; \<open>Epoll::wait\<close> and
    \<open>setNonBlocking\<close> report what happened.
  \<^item> Queue, pool, dispatcher: first in first out within capacity, close drains, no wake-up is
    lost, stop runs all accepted tasks and terminates, every task yields one result, and a
    completed result is always announced.
  \<^item> Connection: the frames delivered are those the peer encoded, for every way the stream is
    cut; memory is bounded; a peer that never pauses keeps \<open>readAvailable\<close> from returning.
  \<^item> Event loop: in every reachable state every frame of a live connection is answered once on
    that connection or still with the dispatcher; connection ids are unique and results
    never match another connection; open descriptors and the epoll interest list follow the
    connection table exactly; completed results wake the loop, and each is queued on its
    connection or dropped when that connection is gone. Handlers return, affect
    only their connection, and close it when it fails. \<open>run\<close> returns only to report an
    error, and one aborted connection is enough to make it return.
  \<^item> Programs: the server's \<open>main\<close> returns only with status 1 and leaves no descriptor open on
    any path, from a socket that cannot be created to a running server that stops with
    connections open; the simulator returns, closes its socket on every path, and has
    exchanged exactly one frame each way when it reports success.

  \<^bold>\<open>Assumptions.\<close> The contracts of system calls are hypotheses of the theorems. That fewer
  than \<open>2^64 - 1\<close> connections are accepted, so that ids do not wrap around, is part of
  \<open>accept_contract\<close>. Starting a thread may fail (\<open>spawn\<close>).

  \<^bold>\<open>What is not modelled.\<close> Output to \<open>std::cout\<close> and \<open>std::cerr\<close>; failing memory allocation;
  the C++ memory model below critical sections and atomic operations; signals other than
  as interrupted calls; the tests and the build files.

  A system call is a function, so a call that blocks for ever is not represented; the
  wrap-around of connection ids and a joint run of simulator and server are not treated.
\<close>

end
